theory Spec2Isabelle
  imports Main "HOL-Library.AList"
begin

section \<open>JavaScript values\<close>

text \<open>
  The values that flow through \<^verbatim>\<open>lib/app/private/loadHooks.js\<close>: the shared configuration
  \<^verbatim>\<open>sails.config\<close>, the data properties of hook definitions and the errors passed to
  callbacks. An object is an association list in insertion order, as \<^verbatim>\<open>_.keys\<close> reports it.
  Numbers are restricted to integers.
\<close>

datatype jsval =
    VUndef
  | VNull
  | VBool bool
  | VNum int
  | VStr string
  | VArr "jsval list"
  | VObj "(string \<times> jsval) list"

fun truthy :: "jsval \<Rightarrow> bool" where
  "truthy VUndef = False"
| "truthy VNull = False"
| "truthy (VBool b) = b"
| "truthy (VNum n) = (n \<noteq> 0)"
| "truthy (VStr s) = (s \<noteq> [])"
| "truthy (VArr xs) = True"
| "truthy (VObj kvs) = True"

text \<open>\<^verbatim>\<open>a || b\<close>\<close>

definition js_or :: "jsval \<Rightarrow> jsval \<Rightarrow> jsval" where
  "js_or a b = (if truthy a then a else b)"

text \<open>\<^verbatim>\<open>v[k]\<close> on a value that is neither \<^verbatim>\<open>undefined\<close> nor \<^verbatim>\<open>null\<close>
  (own data properties only).\<close>

fun get :: "jsval \<Rightarrow> string \<Rightarrow> jsval" where
  "get (VObj kvs) k = (case map_of kvs k of None \<Rightarrow> VUndef | Some v \<Rightarrow> v)"
| "get v k = VUndef"

text \<open>\<^verbatim>\<open>a && a[k]\<close>\<close>

definition js_and_get :: "jsval \<Rightarrow> string \<Rightarrow> jsval" where
  "js_and_get a k = (if truthy a then get a k else a)"

fun nullish :: "jsval \<Rightarrow> bool" where
  "nullish VUndef = True"
| "nullish VNull = True"
| "nullish v = False"

fun is_obj :: "jsval \<Rightarrow> bool" where
  "is_obj (VObj kvs) = True"
| "is_obj v = False"

text \<open>String conversion, as \<^verbatim>\<open>+\<close> with a string operand and property keys perform it.\<close>

fun digits :: "nat \<Rightarrow> string" where
  "digits n = (if n < 10 then [''0123456789'' ! n]
               else digits (n div 10) @ [''0123456789'' ! (n mod 10)])"

fun join_commas :: "string list \<Rightarrow> string" where
  "join_commas [] = []"
| "join_commas [s] = s"
| "join_commas (s # t # ss) = s @ '','' @ join_commas (t # ss)"

fun js_toString :: "jsval \<Rightarrow> string" where
  "js_toString VUndef = ''undefined''"
| "js_toString VNull = ''null''"
| "js_toString (VBool b) = (if b then ''true'' else ''false'')"
| "js_toString (VNum n) = (if n < 0 then ''-'' @ digits (nat (- n)) else digits (nat n))"
| "js_toString (VStr s) = s"
| "js_toString (VArr xs) =
     join_commas (map (\<lambda>x. if nullish x then [] else js_toString x) xs)"
| "js_toString (VObj kvs) = ''[object Object]''"

text \<open>\<^verbatim>\<open>id.split('.')[0]\<close> and \<^verbatim>\<open>id.toLowerCase()\<close> (ASCII letters).\<close>

definition namespace_prefix :: "string \<Rightarrow> string" where
  "namespace_prefix ident = takeWhile (\<lambda>c. c \<noteq> CHR ''.'') ident"

definition lower_char :: "char \<Rightarrow> char" where
  "lower_char c =
     (case map_of (zip ''ABCDEFGHIJKLMNOPQRSTUVWXYZ'' ''abcdefghijklmnopqrstuvwxyz'') c of
        None \<Rightarrow> c | Some l \<Rightarrow> l)"

definition toLowerCase :: "string \<Rightarrow> string" where
  "toLowerCase s = map lower_char s"

section \<open>The defaults merge\<close>

text \<open>
  Modelled from the spec: \<^verbatim>\<open>defaultsDeep\<close> is \<^verbatim>\<open>require('merge-defaults')\<close>, whose code is
  not part of the sources. The specification says of it: the object is deep-merged into
  the shared configuration such that any key already present, at any depth, is left
  untouched, and only missing keys are filled in. A key present on both sides with an
  object on both sides is merged recursively; any other present key keeps its value.
\<close>

fun defaultsDeep :: "jsval \<Rightarrow> jsval \<Rightarrow> jsval"
  and fill :: "(string \<times> jsval) list \<Rightarrow> (string \<times> jsval) list \<Rightarrow> (string \<times> jsval) list" where
  "defaultsDeep (VObj d) (VObj s) = VObj (fill d s)"
| "defaultsDeep d s = d"
| "fill d [] = d"
| "fill d ((k, v) # s) =
     fill (case map_of d k of
             None \<Rightarrow> d @ [(k, v)]
           | Some dv \<Rightarrow> AList.update k (defaultsDeep dv v) d) s"

text \<open>An object value as JavaScript builds it: no key occurs twice, at any depth.\<close>

fun wf :: "jsval \<Rightarrow> bool" and wfs :: "(string \<times> jsval) list \<Rightarrow> bool" where
  "wf (VObj d) = wfs d"
| "wf v = True"
| "wfs [] = True"
| "wfs ((k, v) # d) = (map_of d k = None \<and> wf v \<and> wfs d)"

text \<open>The value found by following a path of keys from a value.\<close>

fun lookup_path :: "jsval \<Rightarrow> string list \<Rightarrow> jsval option" where
  "lookup_path v [] = Some v"
| "lookup_path (VObj d) (k # p) =
     (case map_of d k of None \<Rightarrow> None | Some v \<Rightarrow> lookup_path v p)"
| "lookup_path v (k # p) = None"

section \<open>Hook definitions and the registry\<close>

text \<open>
  \<^verbatim>\<open>hook.defaults\<close>: a plain value (an object, or \<^verbatim>\<open>undefined\<close> when absent) or a
  function of the shared configuration; a function is an object too and carries its own
  properties.
\<close>

datatype defaults =
    DVal jsval
  | DFun "(string \<times> jsval) list" "jsval \<Rightarrow> jsval"

text \<open>
  What a hook factory returns. \<^verbatim>\<open>configure()\<close> is synchronous: it returns the shared
  configuration as it leaves it (\<open>Inr\<close>) or throws (\<open>Inl\<close>).
\<close>

record descriptor =
  d_defaults :: defaults
  d_configure :: "jsval \<Rightarrow> jsval + jsval"

text \<open>A hook factory: its own \<^verbatim>\<open>configKey\<close> property and the descriptor it returns when it is
  called with \<^verbatim>\<open>sails\<close>.\<close>

record factory =
  f_configKey :: jsval
  f_make :: descriptor

text \<open>
  Modelled from the spec: the constructor \<^verbatim>\<open>Hook\<close> comes from \<^verbatim>\<open>lib/hooks\<close>, which is not part
  of the sources. The specification describes the normalised entity as the descriptor's
  \<^verbatim>\<open>defaults\<close>, \<^verbatim>\<open>configure\<close> and \<^verbatim>\<open>load\<close> together with \<^verbatim>\<open>identity\<close> and \<^verbatim>\<open>configKey\<close>. The
  asynchronous \<^verbatim>\<open>load\<close> is driven by the environment, see \<open>event\<close> below.
\<close>

record hook =
  h_identity :: string
  h_configKey :: jsval
  h_defaults :: defaults
  h_configure :: "jsval \<Rightarrow> jsval + jsval"

definition Hook :: "descriptor \<Rightarrow> string \<Rightarrow> jsval \<Rightarrow> hook" where
  "Hook def ident key =
     \<lparr> h_identity = ident, h_configKey = key,
       h_defaults = d_defaults def, h_configure = d_configure def \<rparr>"

text \<open>
  An entry of the registry \<^verbatim>\<open>hooks\<close>: a value that is not a function (\<^verbatim>\<open>false\<close>, \<^verbatim>\<open>'false'\<close>, an
  object whose \<^verbatim>\<open>index\<close> is no function, ...), a factory function, a folder-defined module
  (an object whose \<^verbatim>\<open>index\<close> is a factory function), or a prepared \<^verbatim>\<open>Hook\<close> instance.
\<close>

datatype entry =
    Raw jsval
  | Factory factory
  | Folder factory
  | Inst hook

type_synonym registry = "(string \<times> entry) list"

fun truthy_entry :: "entry option \<Rightarrow> bool" where
  "truthy_entry None = False"
| "truthy_entry (Some (Raw v)) = truthy v"
| "truthy_entry (Some e) = True"

text \<open>\<^verbatim>\<open>x === false\<close> and \<^verbatim>\<open>x === 'false'\<close>\<close>

fun is_false :: "entry option \<Rightarrow> bool" where
  "is_false (Some (Raw (VBool b))) = (\<not> b)"
| "is_false e = False"

fun is_false_string :: "entry option \<Rightarrow> bool" where
  "is_false_string (Some (Raw (VStr s))) = (s = ''false'')"
| "is_false_string e = False"

text \<open>Reading a data property of a registry entry. Of the properties a factory function may
  carry only \<^verbatim>\<open>configKey\<close> is kept, and a folder-defined module has none but \<^verbatim>\<open>index\<close>; the
  properties of an unprepared definition are plain data, never functions.\<close>

fun entry_get :: "entry \<Rightarrow> string \<Rightarrow> jsval" where
  "entry_get (Raw v) p = get v p"
| "entry_get (Factory f) p = (if p = ''configKey'' then f_configKey f else VUndef)"
| "entry_get (Folder f) p = VUndef"
| "entry_get (Inst h) p =
     (if p = ''identity'' then VStr (h_identity h)
      else if p = ''configKey'' then h_configKey h else VUndef)"

fun entry_nullish :: "entry \<Rightarrow> bool" where
  "entry_nullish (Raw v) = nullish v"
| "entry_nullish e = False"

fun entry_defaults :: "entry \<Rightarrow> defaults" where
  "entry_defaults (Inst h) = h_defaults h"
| "entry_defaults e = DVal (entry_get e ''defaults'')"

fun set_entry_defaults :: "entry \<Rightarrow> defaults \<Rightarrow> entry" where
  "set_entry_defaults (Inst h) d = Inst (h\<lparr>h_defaults := d\<rparr>)"
| "set_entry_defaults (Raw (VObj kvs)) (DVal v) = Raw (VObj (AList.update ''defaults'' v kvs))"
| "set_entry_defaults e d = e"

text \<open>\<^verbatim>\<open>_.without(_.keys(hooks), 'userconfig', 'moduleloader', 'userhooks')\<close>: the keys in
  insertion order, each once.\<close>

definition other_ids :: "registry \<Rightarrow> string list" where
  "other_ids hs =
     filter (\<lambda>k. k \<noteq> ''userconfig'' \<and> k \<noteq> ''moduleloader'' \<and> k \<noteq> ''userhooks'')
       (remdups (map fst hs))"

section \<open>The state of one orchestration\<close>

text \<open>
  A timer of the host, as \<^verbatim>\<open>setTimeout\<close> creates it around \<^verbatim>\<open>tooLong\<close>: the hook id and the
  interval its closure holds, and whether it was cleared or has fired. A timer handle is
  the timer's index in the host's table.
\<close>

record timer =
  t_owner :: string
  t_interval :: jsval
  t_cleared :: bool
  t_fired :: bool

text \<open>What the orchestration does to the outside, in the order it happens.\<close>

datatype action =
    CallerCb jsval
  | Emit string
  | Log string string
  | LoadStart string
  | HookCb string jsval

text \<open>What stops the orchestration abnormally: an exception nobody catches, or
  \<^verbatim>\<open>process.exit(1)\<close>.\<close>

datatype crash =
    TypeError
  | Thrown jsval
  | CallbackAlreadyCalled
  | ProcessExit

text \<open>
  \<open>hooks\<close> and \<open>config\<close> are the registry and \<^verbatim>\<open>sails.config\<close>; \<open>hookTimeouts\<close> is the array
  of that name; \<open>handles\<close> holds the variable \<^verbatim>\<open>hookTimeout\<close> of each \<^verbatim>\<open>loadHook\<close> call.
  \<open>stage\<close> is the task of \<^verbatim>\<open>async.series\<close> that is running (0 to 7, in the order of the
  source), \<open>finished\<close> says that \<^verbatim>\<open>hooksReady\<close> has been called; \<open>each_called\<close>,
  \<open>completed\<close> and \<open>total\<close> are the bookkeeping of the \<^verbatim>\<open>async.each\<close> of the load stage.
\<close>

record state =
  hooks :: registry
  config :: jsval
  timers :: "timer list"
  hookTimeouts :: "nat list"
  handles :: "(string \<times> nat) list"
  trace :: "action list"
  stage :: nat
  finished :: bool
  each_called :: bool
  completed :: nat
  total :: nat

type_synonym outcome = "(crash \<times> state) + state"

definition thenS :: "outcome \<Rightarrow> (state \<Rightarrow> outcome) \<Rightarrow> outcome" where
  "thenS r f = (case r of Inl e \<Rightarrow> Inl e | Inr st \<Rightarrow> f st)"

fun outcome_state :: "outcome \<Rightarrow> state" where
  "outcome_state (Inl (c, st)) = st"
| "outcome_state (Inr st) = st"

fun each_sync :: "(string \<Rightarrow> state \<Rightarrow> outcome) \<Rightarrow> string list \<Rightarrow> state \<Rightarrow> outcome" where
  "each_sync f [] st = Inr st"
| "each_sync f (x # xs) st = thenS (f x st) (each_sync f xs)"

definition act :: "action \<Rightarrow> state \<Rightarrow> state" where
  "act a st = st\<lparr>trace := trace st @ [a]\<rparr>"

text \<open>The callback \<^verbatim>\<open>cb\<close> of \<^verbatim>\<open>initializeHooks\<close>, and the final callback of the series.\<close>

definition caller_cb :: "jsval \<Rightarrow> state \<Rightarrow> state" where
  "caller_cb err st = act (CallerCb err) st"

definition hooksReady :: "jsval \<Rightarrow> state \<Rightarrow> state" where
  "hooksReady err st = caller_cb err (st\<lparr>finished := True\<rparr>)"

definition clearTimeout :: "nat \<Rightarrow> state \<Rightarrow> state" where
  "clearTimeout h st =
     (if h < length (timers st)
      then st\<lparr>timers := (timers st)[h := (timers st ! h)\<lparr>t_cleared := True\<rparr>]\<rparr>
      else st)"

section \<open>prepareHook\<close>

definition invalid_configuration :: jsval where
  "invalid_configuration = VStr
     ''Invalid configuration:: Cannot use the `userconfig` hook w/o the `moduleloader` hook enabled!''"

text \<open>The effective definition: a function as it is, the \<^verbatim>\<open>index\<close> of an object that is
  neither an array nor a function; \<open>None\<close> when the result is no function.\<close>

fun effective_factory :: "entry option \<Rightarrow> factory option" where
  "effective_factory (Some (Factory f)) = Some f"
| "effective_factory (Some (Folder f)) = Some f"
| "effective_factory e = None"

definition prepareHook :: "string \<Rightarrow> state \<Rightarrow> outcome" where
  "prepareHook ident st =
     (let hookPrototype = map_of (hooks st) ident in
      if is_false hookPrototype \<or> is_false_string hookPrototype
         \<or> is_false (map_of (hooks st) (namespace_prefix ident))
      then Inr (st\<lparr>hooks := AList.delete ident (hooks st)\<rparr>)
      else if truthy_entry (map_of (hooks st) ''userconfig'')
              \<and> \<not> truthy_entry (map_of (hooks st) ''moduleloader'')
      then Inr (caller_cb invalid_configuration st)
      else case effective_factory hookPrototype of
        None \<Rightarrow>
          Inl (ProcessExit,
               act (Log ''error'' ''Hooks should be a function with one argument (`sails`)'')
                 (act (Log ''error'' (''Malformed hook! ('' @ ident @ '')'')) st))
      | Some f \<Rightarrow>
          (let ident' = toLowerCase ident;
               key = js_or (f_configKey f) (VStr ident')
           in Inr (st\<lparr>hooks := AList.update ident (Inst (Hook (f_make f) ident' key)) (hooks st)\<rparr>)))"

section \<open>applyDefaults\<close>

text \<open>\<^verbatim>\<open>hook.defaults.__configKey__\<close>, and the rewrite of \<^verbatim>\<open>hook.defaults\<close> in place.\<close>

fun defaults_get :: "defaults \<Rightarrow> string \<Rightarrow> jsval" where
  "defaults_get (DVal v) p = get v p"
| "defaults_get (DFun ps f) p = (case map_of ps p of None \<Rightarrow> VUndef | Some v \<Rightarrow> v)"

definition move_key :: "string \<Rightarrow> (string \<times> jsval) list \<Rightarrow> (string \<times> jsval) list" where
  "move_key key kvs =
     AList.delete ''__configKey__''
       (AList.update key (case map_of kvs ''__configKey__'' of None \<Rightarrow> VUndef | Some v \<Rightarrow> v) kvs)"

fun rewrite_defaults :: "string \<Rightarrow> defaults \<Rightarrow> defaults" where
  "rewrite_defaults key (DVal (VObj kvs)) = DVal (VObj (move_key key kvs))"
| "rewrite_defaults key (DFun ps f) = DFun (move_key key ps) f"
| "rewrite_defaults key d = d"

text \<open>The variable \<^verbatim>\<open>defaults\<close>: the function's result, or \<^verbatim>\<open>hook.defaults\<close> itself, or \<^verbatim>\<open>{}\<close>.\<close>

fun resolve_defaults :: "defaults \<Rightarrow> jsval \<Rightarrow> jsval" where
  "resolve_defaults (DFun ps f) c = js_or (f c) (VObj [])"
| "resolve_defaults (DVal v) c = js_or v (VObj [])"

text \<open>
  \<^verbatim>\<open>applyDefaults(hooks[id])\<close>. The source passes the hook object; the model names the
  registry slot that holds it, since the rewrite mutates that object. When \<^verbatim>\<open>hook.defaults\<close>
  is an object, \<^verbatim>\<open>defaults\<close> is the same object and sees the rewrite; the result of a
  function is another object and does not.
\<close>

definition applyDefaults :: "string \<Rightarrow> state \<Rightarrow> outcome" where
  "applyDefaults ident st =
     (case map_of (hooks st) ident of
        None \<Rightarrow> Inl (TypeError, st)
      | Some e \<Rightarrow>
          if entry_nullish e then Inl (TypeError, st)
          else
            (let hd = entry_defaults e;
                 defaults = resolve_defaults hd (config st)
             in if (case hd of DVal v \<Rightarrow> nullish v | DFun ps f \<Rightarrow> False) then Inl (TypeError, st)
                else if truthy (defaults_get hd ''__configKey__'') \<and> truthy (entry_get e ''configKey'')
                then
                  (let hd' = rewrite_defaults (js_toString (entry_get e ''configKey'')) hd;
                       defaults' = (case hd' of DVal v \<Rightarrow> v | DFun ps f \<Rightarrow> defaults)
                   in Inr (st\<lparr>hooks := AList.update ident (set_entry_defaults e hd') (hooks st),
                               config := defaultsDeep (config st) defaults'\<rparr>))
                else Inr (st\<lparr>config := defaultsDeep (config st) defaults\<rparr>)))"

text \<open>\<^verbatim>\<open>hooks[id].configure()\<close>, outside any \<^verbatim>\<open>try\<close>.\<close>

definition configure_hook :: "string \<Rightarrow> state \<Rightarrow> outcome" where
  "configure_hook ident st =
     (case map_of (hooks st) ident of
        Some (Inst h) \<Rightarrow>
          (case h_configure h (config st) of
             Inl e \<Rightarrow> Inl (Thrown e, st)
           | Inr c \<Rightarrow> Inr (st\<lparr>config := c\<rparr>))
      | _ \<Rightarrow> Inl (TypeError, st))"

section \<open>loadHook and the Timeout Guard\<close>

definition timeoutInterval :: "entry \<Rightarrow> string \<Rightarrow> jsval \<Rightarrow> jsval" where
  "timeoutInterval e ident c =
     (let key = js_toString (js_or (entry_get e ''configKey'') (VStr ident))
      in js_or (js_or (js_and_get (get c key) ''_hookTimeout'') (get c ''hookTimeout''))
           (VNum 20000))"

definition hooksTookTooLongErr :: "string \<Rightarrow> jsval \<Rightarrow> jsval \<Rightarrow> jsval" where
  "hooksTookTooLongErr ident key interval = VObj
     [(''message'', VStr (''The hook `'' @ ident @ ''` is taking too long to load.'' @ [CHR 0x0A]
         @ ''Make sure it is triggering its `initialize()` callback, ''
         @ ''or else set `sails.config.'' @ js_toString key
         @ ''._hookTimeout to a higher value (currently '' @ js_toString interval @ '')'')),
      (''code'', VStr ''E_HOOK_TIMEOUT'')]"

text \<open>
  \<^verbatim>\<open>loadHook(id, cb)\<close> up to the call of \<^verbatim>\<open>hooks[id].load\<close>. What the load does is the
  environment's part: it reports back through the event \<open>LoadDone\<close>.
\<close>

definition loadHook :: "string \<Rightarrow> state \<Rightarrow> outcome" where
  "loadHook ident st =
     (case map_of (hooks st) ident of
        None \<Rightarrow> Inl (TypeError, st)
      | Some e \<Rightarrow>
          if entry_nullish e then Inl (TypeError, st)
          else
            (let interval = timeoutInterval e ident (config st);
                 st1 = (if ident \<noteq> ''userhooks''
                        then st\<lparr>timers := timers st @
                                   [\<lparr>t_owner = ident, t_interval = interval,
                                     t_cleared = False, t_fired = False\<rparr>],
                                 hookTimeouts := hookTimeouts st @ [length (timers st)],
                                 handles := (ident, length (timers st)) # handles st\<rparr>
                        else st)
             in case e of
                  Inst h \<Rightarrow> Inr (act (LoadStart ident) st1)
                | _ \<Rightarrow> Inl (TypeError, st1)))"

section \<open>Callbacks\<close>

text \<open>
  The package \<^verbatim>\<open>async\<close> is not part of the sources; the model follows its documented
  behaviour. \<^verbatim>\<open>async.series\<close> runs each task once the previous one has called back
  without an error, and calls the final callback with the first error or after the last
  task. \<^verbatim>\<open>async.each\<close> starts the iteratee on every item, calls its callback once with the
  first error, or with none when every item has called back. A callback that \<^verbatim>\<open>async\<close>
  hands to a task or an iteratee throws when it is called a second time.
\<close>

text \<open>The callback of the \<^verbatim>\<open>async.each\<close> of a stage, reached from one item's callback.\<close>

definition each_cb :: "jsval \<Rightarrow> state \<Rightarrow> state" where
  "each_cb err st =
     (if truthy err
      then (if each_called st then st else hooksReady err (st\<lparr>each_called := True\<rparr>))
      else
        (let st1 = st\<lparr>completed := completed st + 1\<rparr>
         in if completed st1 = total st1 \<and> \<not> each_called st1
            then hooksReady VNull (st1\<lparr>each_called := True\<rparr>)
            else st1))"

fun is_cb_of :: "string \<Rightarrow> action \<Rightarrow> bool" where
  "is_cb_of ident (HookCb i e) = (i = ident)"
| "is_cb_of ident a = False"

section \<open>The stages of the series\<close>

definition load_item :: "string \<Rightarrow> state \<Rightarrow> outcome" where
  "load_item ident st = loadHook ident (act (Log ''silly'' (''Loading hook: '' @ ident)) st)"

definition stage_load :: "state \<Rightarrow> outcome" where
  "stage_load st =
     (let ids = other_ids (hooks st);
          st1 = st\<lparr>stage := 7, each_called := False, completed := 0, total := length ids\<rparr>
      in if ids = [] then Inr (hooksReady VNull (st1\<lparr>each_called := True\<rparr>))
         else each_sync load_item ids st1)"

definition type_error_value :: jsval where
  "type_error_value = VObj [(''name'', VStr ''TypeError'')]"

text \<open>One item of the configure stage: \<^verbatim>\<open>hook.configure()\<close> inside \<^verbatim>\<open>try\<close>, the exception handed
  to the item's callback at once, a success reported on the next tick.\<close>

definition configure_cb :: "jsval \<Rightarrow> state \<Rightarrow> state" where
  "configure_cb err st =
     (if truthy err
      then (if each_called st then st else hooksReady err (st\<lparr>each_called := True\<rparr>))
      else st\<lparr>completed := completed st + 1\<rparr>)"

definition configure_item :: "string \<Rightarrow> state \<Rightarrow> outcome" where
  "configure_item ident st =
     (case map_of (hooks st) ident of
        Some (Inst h) \<Rightarrow>
          (case h_configure h (config st) of
             Inl e \<Rightarrow> Inr (configure_cb e st)
           | Inr c \<Rightarrow> Inr (configure_cb VUndef (st\<lparr>config := c\<rparr>)))
      | _ \<Rightarrow> Inr (configure_cb type_error_value st))"

text \<open>The stage's callback runs without an error, and the series goes on to the load
  stage, once every item has called back without one.\<close>

definition stage_configure :: "state \<Rightarrow> outcome" where
  "stage_configure st =
     (let ids = other_ids (hooks st);
          st1 = st\<lparr>stage := 6, each_called := False, completed := 0, total := length ids\<rparr>
      in thenS (each_sync configure_item ids st1)
           (\<lambda>st2. if completed st2 = total st2 \<and> \<not> each_called st2 then stage_load st2
                  else Inr st2))"

definition stage_defaults :: "state \<Rightarrow> outcome" where
  "stage_defaults st =
     thenS (each_sync applyDefaults (other_ids (hooks st)) (st\<lparr>stage := 5\<rparr>)) stage_configure"

definition stage_prepare :: "state \<Rightarrow> outcome" where
  "stage_prepare st =
     thenS (each_sync prepareHook (other_ids (hooks st)) (st\<lparr>stage := 4\<rparr>)) stage_defaults"

definition controllers_notice :: "string list" where
  "controllers_notice =
     [''================================================================================='',
      ''Ignoring `controllers` hook:'',
      ''As of Sails v1, `controllers` can no longer be disabled/enabled as hooks.'',
      ''Instead, Sails core now understands controller actions as first-class citizens.'',
      ''See the Sails v1.0 upgrade guide: http://sailsjs.com/upgrading'',
      ''================================================================================='']"

definition stage_validate :: "state \<Rightarrow> outcome" where
  "stage_validate st =
     (let st1 = st\<lparr>stage := 3\<rparr>
      in stage_prepare
           (if truthy_entry (map_of (hooks st1) ''controllers'')
            then (fold (\<lambda>m. act (Log ''debug'' m)) controllers_notice st1)
                   \<lparr>hooks := AList.delete ''controllers'' (hooks st1)\<rparr>
            else st1))"

text \<open>A bootstrap task: skipped when the id is absent, else prepare, defaults, configure
  and load, the task's callback being the one handed to \<^verbatim>\<open>loadHook\<close>.\<close>

definition bootstrap_task :: "string \<Rightarrow> nat \<Rightarrow> (state \<Rightarrow> outcome) \<Rightarrow> state \<Rightarrow> outcome" where
  "bootstrap_task ident i next_task st =
     (let st1 = st\<lparr>stage := i\<rparr>
      in if \<not> truthy_entry (map_of (hooks st1) ident) then next_task st1
         else thenS (thenS (thenS (prepareHook ident st1) (applyDefaults ident))
                      (configure_hook ident)) (loadHook ident))"

definition stage_userhooks :: "state \<Rightarrow> outcome" where
  "stage_userhooks = bootstrap_task ''userhooks'' 2 stage_validate"

definition stage_userconfig :: "state \<Rightarrow> outcome" where
  "stage_userconfig = bootstrap_task ''userconfig'' 1 stage_userhooks"

definition stage_moduleloader :: "state \<Rightarrow> outcome" where
  "stage_moduleloader = bootstrap_task ''moduleloader'' 0 stage_userconfig"

definition initializeHooks :: "state \<Rightarrow> outcome" where
  "initializeHooks st = stage_moduleloader st"

text \<open>The state in which an application calls \<^verbatim>\<open>initializeHooks(hooks, cb)\<close> for the first
  time.\<close>

definition init :: "registry \<Rightarrow> jsval \<Rightarrow> state" where
  "init hs c =
     \<lparr> hooks = hs, config = c, timers = [], hookTimeouts = [], handles = [], trace = [],
       stage = 0, finished = False, each_called = False, completed = 0, total = 0 \<rparr>"

section \<open>What happens later: load completions and timers\<close>

text \<open>
  The callback \<^verbatim>\<open>cb\<close> that \<^verbatim>\<open>loadHook\<close> received for a hook: the task callback of the series
  for a bootstrap hook, the item callback of the load stage's \<^verbatim>\<open>async.each\<close> for the others.
\<close>

definition hook_cb :: "string \<Rightarrow> jsval \<Rightarrow> state \<Rightarrow> outcome" where
  "hook_cb ident err st =
     (let st1 = act (HookCb ident err) st
      in if list_ex (is_cb_of ident) (trace st) then Inl (CallbackAlreadyCalled, st1)
         else if ident = ''moduleloader'' \<or> ident = ''userconfig'' \<or> ident = ''userhooks''
         then (if truthy err then Inr (hooksReady err st1)
               else if ident = ''moduleloader'' then stage_userconfig st1
               else if ident = ''userconfig'' then stage_userhooks st1
               else stage_validate st1)
         else Inr (each_cb err st1))"

text \<open>The function handed to \<^verbatim>\<open>hooks[id].load\<close>, called by the hook with \<^verbatim>\<open>err\<close>.\<close>

definition loaded :: "string \<Rightarrow> jsval \<Rightarrow> state \<Rightarrow> outcome" where
  "loaded ident err st =
     (let st1 = (if ident \<noteq> ''userhooks''
                 then (case map_of (handles st) ident of
                         None \<Rightarrow> st | Some h \<Rightarrow> clearTimeout h st)
                 else st)
      in if truthy err
         then
           (let st2 = fold clearTimeout (hookTimeouts st1) st1;
                st3 = (if ident \<noteq> ''userhooks''
                       then act (Log ''error'' (''A hook (`'' @ ident @ ''`) failed to load!'')) st2
                       else st2);
                st4 = act (Emit (''hook:'' @ ident @ '':error'')) st3
            in hook_cb ident err st4)
         else
           hook_cb ident VUndef
             (act (Emit (''hook:'' @ ident @ '':loaded''))
                (act (Log ''verbose'' (ident @ '' hook loaded successfully.'')) st1)))"

text \<open>The function \<^verbatim>\<open>tooLong\<close> of a timer, and the host running a timer that is due.\<close>

definition tooLong :: "string \<Rightarrow> jsval \<Rightarrow> state \<Rightarrow> outcome" where
  "tooLong ident interval st =
     (case map_of (hooks st) ident of
        None \<Rightarrow> Inl (TypeError, st)
      | Some e \<Rightarrow>
          if entry_nullish e then Inl (TypeError, st)
          else hook_cb ident
                 (hooksTookTooLongErr ident (js_or (entry_get e ''configKey'') (VStr ident)) interval)
                 st)"

definition fire :: "nat \<Rightarrow> state \<Rightarrow> outcome" where
  "fire h st =
     (if h < length (timers st) \<and> \<not> t_cleared (timers st ! h) \<and> \<not> t_fired (timers st ! h)
      then tooLong (t_owner (timers st ! h)) (t_interval (timers st ! h))
             (st\<lparr>timers := (timers st)[h := (timers st ! h)\<lparr>t_fired := True\<rparr>]\<rparr>)
      else Inr st)"

text \<open>
  The environment: a hook whose load was started calls its completion callback with an
  error value (\<^verbatim>\<open>undefined\<close> for success), or the host finds a timer due. A load reports
  back in a later turn of the event loop than the one that started it, any number of
  times; a timer may come due at any time. A callback deferred with \<^verbatim>\<open>process.nextTick\<close> runs
  before any other event, and is run within the step that defers it. An uncaught exception
  ends the run.
\<close>

datatype event = LoadDone string jsval | TimerFire nat

fun step :: "event \<Rightarrow> state \<Rightarrow> outcome" where
  "step (LoadDone ident err) st =
     (if LoadStart ident \<in> set (trace st) then loaded ident err st else Inr st)"
| "step (TimerFire h) st = fire h st"

fun run_events :: "event list \<Rightarrow> outcome \<Rightarrow> outcome" where
  "run_events [] r = r"
| "run_events (ev # evs) r = run_events evs (thenS r (step ev))"

section \<open>Example hooks\<close>

text \<open>A factory without a \<^verbatim>\<open>configKey\<close> whose hook has empty defaults and a \<^verbatim>\<open>configure\<close> that
  does nothing, and the hook that \<^verbatim>\<open>prepareHook\<close> makes of it.\<close>

definition plain_factory :: factory where
  "plain_factory =
     \<lparr> f_configKey = VUndef,
       f_make = \<lparr> d_defaults = DVal (VObj []), d_configure = Inr \<rparr> \<rparr>"

definition plain_hook :: "string \<Rightarrow> hook" where
  "plain_hook ident = Hook (f_make plain_factory) ident (VStr ident)"

text \<open>A hook whose \<^verbatim>\<open>defaults\<close> is the given value.\<close>

definition hook_with_defaults :: "string \<Rightarrow> defaults \<Rightarrow> hook" where
  "hook_with_defaults ident d =
     \<lparr> h_identity = ident, h_configKey = VStr ident, h_defaults = d, h_configure = Inr \<rparr>"

section \<open>Example runs\<close>

text \<open>One hook \<^verbatim>\<open>foo\<close> with \<^verbatim>\<open>sails.config.foo._hookTimeout = 50\<close>: the state before the run, the
  state once the load stage has started the hook, and the state once its timer has fired.\<close>

definition timeout_example :: state where
  "timeout_example =
     init [(''foo'', Factory plain_factory)] (VObj [(''foo'', VObj [(''_hookTimeout'', VNum 50)])])"

definition timeout_started :: state where
  "timeout_started =
     \<lparr> hooks = [(''foo'', Inst (plain_hook ''foo''))],
       config = VObj [(''foo'', VObj [(''_hookTimeout'', VNum 50)])],
       timers = [\<lparr>t_owner = ''foo'', t_interval = VNum 50, t_cleared = False, t_fired = False\<rparr>],
       hookTimeouts = [0], handles = [(''foo'', 0)],
       trace = [Log ''silly'' ''Loading hook: foo'', LoadStart ''foo''],
       stage = 7, finished = False, each_called = False, completed = 0, total = 1 \<rparr>"

definition timeout_fired :: state where
  "timeout_fired =
     timeout_started
       \<lparr> timers := [\<lparr>t_owner = ''foo'', t_interval = VNum 50, t_cleared = False, t_fired = True\<rparr>],
         trace := [Log ''silly'' ''Loading hook: foo'', LoadStart ''foo'',
                   HookCb ''foo'' (hooksTookTooLongErr ''foo'' (VStr ''foo'') (VNum 50)),
                   CallerCb (hooksTookTooLongErr ''foo'' (VStr ''foo'') (VNum 50))],
         finished := True, each_called := True \<rparr>"

text \<open>Two hooks \<^verbatim>\<open>a\<close> and \<^verbatim>\<open>b\<close> with the default timeout, before the run and once the load stage
  has started both.\<close>

definition two_hooks :: state where
  "two_hooks = init [(''a'', Factory plain_factory), (''b'', Factory plain_factory)] (VObj [])"

definition two_hooks_started :: state where
  "two_hooks_started =
     \<lparr> hooks = [(''a'', Inst (plain_hook ''a'')), (''b'', Inst (plain_hook ''b''))],
       config = VObj [],
       timers = [\<lparr>t_owner = ''a'', t_interval = VNum 20000, t_cleared = False, t_fired = False\<rparr>,
                 \<lparr>t_owner = ''b'', t_interval = VNum 20000, t_cleared = False, t_fired = False\<rparr>],
       hookTimeouts = [0, 1], handles = [(''b'', 1), (''a'', 0)],
       trace = [Log ''silly'' ''Loading hook: a'', LoadStart ''a'',
                Log ''silly'' ''Loading hook: b'', LoadStart ''b''],
       stage = 7, finished = False, each_called = False, completed = 0, total = 2 \<rparr>"


section \<open>Predicates on runs\<close>

text \<open>No timer of the host belongs to the hook \<^verbatim>\<open>userhooks\<close>.\<close>

definition no_userhooks_timer :: "state \<Rightarrow> bool" where
  "no_userhooks_timer st = list_all (\<lambda>t. t_owner t \<noteq> ''userhooks'') (timers st)"

text \<open>
  The order of the loads, as a monitor that reads a trace. \<open>Before k\<close>: no bootstrap load is
  in flight and the bootstrap tasks below \<open>k\<close> are over; \<open>Busy k\<close>: the load of bootstrap hook
  \<open>k\<close> has started and has not called back without an error. A load may start only when
  none is in flight for a bootstrap hook, and a bootstrap hook's only when no later task has
  been reached; the other hooks count as task 3.
\<close>

datatype phase = Before nat | Busy nat

definition boot_index :: "string \<Rightarrow> nat" where
  "boot_index ident =
     (if ident = ''moduleloader'' then 0 else if ident = ''userconfig'' then 1
      else if ident = ''userhooks'' then 2 else 3)"

fun mon :: "phase \<Rightarrow> action \<Rightarrow> phase option" where
  "mon (Before k) (LoadStart i) =
     (if k \<le> boot_index i
      then Some (if boot_index i < 3 then Busy (boot_index i) else Before 3)
      else None)"
| "mon (Busy k) (LoadStart i) = None"
| "mon (Busy k) (HookCb i e) =
     Some (if boot_index i = k \<and> \<not> truthy e then Before (Suc k) else Busy k)"
| "mon p a = Some p"

fun accepts :: "phase \<Rightarrow> action list \<Rightarrow> phase option" where
  "accepts p [] = Some p"
| "accepts p (a # as) = (case mon p a of None \<Rightarrow> None | Some q \<Rightarrow> accepts q as)"

fun level :: "phase \<Rightarrow> nat" where
  "level (Before k) = k"
| "level (Busy k) = Suc k"

text \<open>How the trace of one state continues that of another: within one task and without
  any load starting, with loads of other hooks only, or in a way the monitor accepts from
  \<open>Before k\<close>. While the load of bootstrap hook \<open>j\<close> is in flight, the series is in task \<open>j\<close>.\<close>

definition quiet_step :: "state \<Rightarrow> state \<Rightarrow> bool" where
  "quiet_step st st' =
     (stage st' = stage st
      \<and> (\<exists>new. trace st' = trace st @ new \<and> (\<forall>i. LoadStart i \<notin> set new)))"








text \<open>A shared configuration and a defaults object that overlap.\<close>

definition config_example :: jsval where
  "config_example = VObj [(''a'', VObj [(''x'', VNum 1)])]"

definition defaults_example :: jsval where
  "defaults_example = VObj [(''a'', VObj [(''x'', VNum 2), (''y'', VNum 3)]), (''b'', VNum 4)]"




text \<open>An operation that stays within its task, changes the registry only at the ids in \<open>Y\<close>, and
  starts no load.\<close>

definition touches :: "string set \<Rightarrow> state \<Rightarrow> state \<Rightarrow> bool" where
  "touches Y st st' =
     (stage st' = stage st
      \<and> (\<forall>x. x \<notin> Y \<longrightarrow> map_of (hooks st') x = map_of (hooks st) x)
      \<and> (\<exists>new. trace st' = trace st @ new \<and> (\<forall>i. LoadStart i \<notin> set new)))"










section \<open>Properties of the defaults merge\<close>

lemma defaultsDeep_atom: "\<not> is_obj d \<Longrightarrow> defaultsDeep d s = d"
  by (cases d) auto

lemma foldl_defaultsDeep_atom: "\<not> is_obj v \<Longrightarrow> foldl defaultsDeep v ss = v"
  by (induction ss) (simp_all add: defaultsDeep_atom)

lemma update_present: "map_of d k = Some x \<Longrightarrow> AList.update k x d = d"
  by (induction d) auto

lemma fill_other_key: "k \<notin> fst ` set s \<Longrightarrow> map_of (fill d s) k = map_of d k"
proof (induction s arbitrary: d)
  case Nil
  then show ?case by simp
next
  case (Cons a s)
  obtain k' v where a: "a = (k', v)" by (cases a)
  with Cons.prems have ne: "k' \<noteq> k" and ks: "k \<notin> fst ` set s" by auto
  show ?case using Cons.IH[OF ks] ne
    by (simp add: a update_conv' map_add_def split: option.splits)
qed

lemma fill_covered:
  "\<forall>(k, v) \<in> set s. map_of d k = Some v \<and> defaultsDeep v v = v \<Longrightarrow> fill d s = d"
proof (induction s)
  case Nil
  then show ?case by simp
next
  case (Cons a s)
  obtain k v where a: "a = (k, v)" by (cases a)
  have h: "map_of d k = Some v \<and> defaultsDeep v v = v" using Cons.prems a by simp
  have "fill d s = d" using Cons.IH Cons.prems by simp
  then show ?case using h by (simp add: a update_present)
qed

lemma wfs_map_of: "wfs s \<Longrightarrow> (k, v) \<in> set s \<Longrightarrow> map_of s k = Some v"
proof (induction s)
  case Nil
  then show ?case by simp
next
  case (Cons a s)
  obtain k' v' where a: "a = (k', v')" by (cases a)
  show ?case
  proof (cases "k' = k")
    case True
    with Cons.prems a have "map_of s k = None" by simp
    hence "(k, v) \<notin> set s" by (metis map_of_eq_None_iff fst_conv image_eqI)
    with Cons.prems a True show ?thesis by auto
  next
    case False
    with Cons a show ?thesis by auto
  qed
qed

lemma wfs_wf: "wfs s \<Longrightarrow> (k, v) \<in> set s \<Longrightarrow> wf v"
  by (induction s) auto

lemma defaultsDeep_self: "wf v \<Longrightarrow> defaultsDeep v v = v"
proof (induction v)
  case (VObj d)
  have "fill d d = d"
  proof (rule fill_covered, clarify)
    fix k v assume kv: "(k, v) \<in> set d"
    have "wf v" using VObj.prems kv wfs_wf by auto
    moreover have "v \<in> Basic_BNFs.snds (k, v)" by simp
    ultimately have "defaultsDeep v v = v" using VObj.IH kv by blast
    thus "map_of d k = Some v \<and> defaultsDeep v v = v"
      using wfs_map_of VObj.prems kv by auto
  qed
  thus ?case by simp
qed auto

lemma defaultsDeep_fill_idem:
  "wf s \<longrightarrow> defaultsDeep (defaultsDeep d s) s = defaultsDeep d s"
  "wfs sl \<longrightarrow> fill (fill dl sl) sl = fill dl sl"
proof (induction d s and dl sl rule: defaultsDeep_fill.induct)
  case (4 d k v s)
  show ?case
  proof
    assume w: "wfs ((k, v) # s)"
    hence kn: "k \<notin> fst ` set s" and wv: "wf v" and ws: "wfs s"
      by (auto simp: map_of_eq_None_iff)
    define d1 where "d1 = (case map_of d k of None \<Rightarrow> d @ [(k, v)]
           | Some dv \<Rightarrow> AList.update k (defaultsDeep dv v) d)"
    define x where "x = (case map_of d k of None \<Rightarrow> v | Some dv \<Rightarrow> defaultsDeep dv v)"
    have m1: "map_of d1 k = Some x"
      by (cases "map_of d k") (simp_all add: d1_def x_def update_conv' map_add_def)
    have xx: "defaultsDeep x v = x"
      using "4.IH"(1) wv defaultsDeep_self[OF wv] by (auto simp: x_def split: option.splits)
    have mD: "map_of (fill d1 s) k = Some x" using fill_other_key[OF kn] m1 by simp
    have "fill (fill d1 s) ((k, v) # s) = fill (fill d1 s) s"
      using mD xx by (simp add: update_present)
    also have "\<dots> = fill d1 s" using "4.IH"(2) ws by (simp add: d1_def)
    finally show "fill (fill d ((k, v) # s)) ((k, v) # s) = fill d ((k, v) # s)"
      by (simp add: d1_def)
  qed
qed auto

lemma fill_present_key:
  "map_of d k = Some x \<Longrightarrow> \<exists>ss. map_of (fill d s) k = Some (foldl defaultsDeep x ss)"
proof (induction s arbitrary: d x)
  case Nil
  have "map_of (fill d []) k = Some (foldl defaultsDeep x [])" using Nil by simp
  then show ?case by blast
next
  case (Cons a s)
  obtain k' v where a: "a = (k', v)" by (cases a)
  show ?case
  proof (cases "k' = k")
    case True
    have "map_of (AList.update k (defaultsDeep x v) d) k = Some (defaultsDeep x v)"
      by (simp add: update_conv')
    from Cons.IH[OF this] obtain ss where
      "map_of (fill (AList.update k (defaultsDeep x v) d) s) k
         = Some (foldl defaultsDeep (defaultsDeep x v) ss)" by blast
    hence "map_of (fill d (a # s)) k = Some (foldl defaultsDeep x (v # ss))"
      using Cons.prems True a by simp
    then show ?thesis by blast
  next
    case False
    define d1 where "d1 = (case map_of d k' of None \<Rightarrow> d @ [(k', v)]
           | Some dv \<Rightarrow> AList.update k' (defaultsDeep dv v) d)"
    have "map_of d1 k = Some x" using Cons.prems False
      by (auto simp: d1_def update_conv' split: option.splits)
    from Cons.IH[OF this] obtain ss where
      "map_of (fill d1 s) k = Some (foldl defaultsDeep x ss)" by blast
    hence "map_of (fill d (a # s)) k = Some (foldl defaultsDeep x ss)" by (simp add: a d1_def)
    then show ?thesis by blast
  qed
qed

lemma defaultsDeep_obj_key:
  "map_of dl k = Some x \<Longrightarrow>
     \<exists>dl' ts. defaultsDeep (VObj dl) d = VObj dl' \<and> map_of dl' k = Some (foldl defaultsDeep x ts)"
proof (cases d)
  case (VObj sl)
  assume "map_of dl k = Some x"
  from fill_present_key[OF this, of sl] show ?thesis by (simp add: VObj)
qed (auto intro: exI[of _ "[]"])

lemma foldl_defaultsDeep_key:
  "map_of dl k = Some x \<Longrightarrow>
     \<exists>dl' ts. foldl defaultsDeep (VObj dl) ds = VObj dl' \<and> map_of dl' k = Some (foldl defaultsDeep x ts)"
proof (induction ds arbitrary: dl x)
  case Nil
  hence "foldl defaultsDeep (VObj dl) [] = VObj dl \<and> map_of dl k = Some (foldl defaultsDeep x [])"
    by simp
  then show ?case by blast
next
  case (Cons d ds)
  from defaultsDeep_obj_key[OF Cons.prems, of d] obtain dl1 t1 where
    1: "defaultsDeep (VObj dl) d = VObj dl1" and 2: "map_of dl1 k = Some (foldl defaultsDeep x t1)"
    by blast
  from Cons.IH[OF 2, of ] obtain dl' ts where
    3: "foldl defaultsDeep (VObj dl1) ds = VObj dl'"
    and 4: "map_of dl' k = Some (foldl defaultsDeep (foldl defaultsDeep x t1) ts)" by blast
  have "foldl defaultsDeep (VObj dl) (d # ds) = VObj dl'" using 1 3 by simp
  moreover have "map_of dl' k = Some (foldl defaultsDeep x (t1 @ ts))" using 4 by simp
  ultimately show ?case by blast
qed

lemma foldl_defaultsDeep_path:
  "lookup_path c p = Some v \<Longrightarrow>
     \<exists>ss. lookup_path (foldl defaultsDeep c ds) p = Some (foldl defaultsDeep v ss)"
proof (induction p arbitrary: c ds)
  case Nil
  hence "lookup_path (foldl defaultsDeep c ds) [] = Some (foldl defaultsDeep v ds)" by simp
  then show ?case by blast
next
  case (Cons k p)
  from Cons.prems obtain dl x where c: "c = VObj dl" and m: "map_of dl k = Some x"
    and lx: "lookup_path x p = Some v"
    by (cases c) (auto split: option.splits)
  from foldl_defaultsDeep_key[OF m, of ds] obtain dl' ts where
    1: "foldl defaultsDeep (VObj dl) ds = VObj dl'"
    and 2: "map_of dl' k = Some (foldl defaultsDeep x ts)" by blast
  from Cons.IH[OF lx, of ts] obtain ss where
    "lookup_path (foldl defaultsDeep x ts) p = Some (foldl defaultsDeep v ss)" by blast
  hence "lookup_path (foldl defaultsDeep c ds) (k # p) = Some (foldl defaultsDeep v ss)"
    using 1 2 by (simp add: c)
  then show ?case by blast
qed

lemma defaultsDeep_keeps_path:
  assumes "lookup_path c p = Some v"
  shows "\<exists>v'. lookup_path (defaultsDeep c d) p = Some v' \<and> (\<not> is_obj v \<longrightarrow> v' = v)"
proof -
  from foldl_defaultsDeep_path[OF assms, of "[d]"] obtain ss where
    "lookup_path (defaultsDeep c d) p = Some (foldl defaultsDeep v ss)" by auto
  thus ?thesis by (auto simp: foldl_defaultsDeep_atom)
qed

lemma is_obj_defaultsDeep: "is_obj (defaultsDeep c d) = is_obj c"
  by (cases c; cases d) auto

lemma is_obj_foldl_defaultsDeep: "is_obj (foldl defaultsDeep v ss) = is_obj v"
  by (induction ss arbitrary: v) (simp_all add: is_obj_defaultsDeep)

lemma fill_key:
  "wfs d \<Longrightarrow> map_of (fill c d) k =
     (case map_of c k of
        Some cv \<Rightarrow> Some (case map_of d k of None \<Rightarrow> cv | Some dv \<Rightarrow> defaultsDeep cv dv)
      | None \<Rightarrow> map_of d k)"
proof (induction d arbitrary: c)
  case Nil
  then show ?case by (simp split: option.splits)
next
  case (Cons a s)
  obtain k' v where a: "a = (k', v)" by (cases a)
  from Cons.prems a have n: "map_of s k' = None" and ws: "wfs s" by simp_all
  define c1 where "c1 = (case map_of c k' of None \<Rightarrow> c @ [(k', v)]
           | Some cv \<Rightarrow> AList.update k' (defaultsDeep cv v) c)"
  have f: "fill c (a # s) = fill c1 s" by (simp add: a c1_def)
  show ?case
  proof (cases "k = k'")
    case True
    have "map_of c1 k = Some (case map_of c k of None \<Rightarrow> v | Some cv \<Rightarrow> defaultsDeep cv v)"
      by (cases "map_of c k'") (simp_all add: c1_def True update_conv' map_add_def)
    thus ?thesis unfolding f using Cons.IH[OF ws, of c1] n True
      by (simp add: a split: option.splits)
  next
    case False
    have "map_of c1 k = map_of c k" using False
      by (cases "map_of c k'")
         (auto simp: c1_def update_conv' map_add_def split: option.splits)
    thus ?thesis unfolding f using Cons.IH[OF ws, of c1] False
      by (simp add: a split: option.splits)
  qed
qed

lemma map_of_wf: "wfs d \<Longrightarrow> map_of d k = Some v \<Longrightarrow> wf v"
  using wfs_wf map_of_SomeD by fastforce

lemma defaultsDeep_fills_missing:
  "lookup_path c p = Some (VObj ob) \<Longrightarrow> map_of ob k = None \<Longrightarrow> wf d
     \<Longrightarrow> lookup_path d (p @ [k]) = Some v
     \<Longrightarrow> lookup_path (defaultsDeep c d) (p @ [k]) = Some v"
proof (induction p arbitrary: c d)
  case Nil
  from Nil.prems(4) obtain dl where d: "d = VObj dl" and m: "map_of dl k = Some v"
    by (cases d) (auto split: option.splits)
  have "wfs dl" using Nil.prems(3) d by simp
  from fill_key[OF this, of ob k] Nil.prems(1,2) m show ?case by (simp add: d)
next
  case (Cons j p)
  from Cons.prems(1) obtain cl cv where c: "c = VObj cl" and mc: "map_of cl j = Some cv"
    and lc: "lookup_path cv p = Some (VObj ob)"
    by (cases c) (auto split: option.splits)
  from Cons.prems(4) obtain dl dv where d: "d = VObj dl" and md: "map_of dl j = Some dv"
    and ld: "lookup_path dv (p @ [k]) = Some v"
    by (cases d) (auto split: option.splits)
  have w: "wfs dl" using Cons.prems(3) d by simp
  have wv: "wf dv" by (rule map_of_wf[OF w md])
  have "map_of (fill cl dl) j = Some (defaultsDeep cv dv)"
    using fill_key[OF w, of cl j] mc md by simp
  thus ?case using Cons.IH[OF lc Cons.prems(2) wv ld] by (simp add: c d)
qed

lemma defaultsDeep_path_origin:
  "wf d \<Longrightarrow> lookup_path (defaultsDeep c d) p = Some v'
     \<Longrightarrow> lookup_path c p \<noteq> None \<or> lookup_path d p \<noteq> None"
proof (induction p arbitrary: c d)
  case Nil
  then show ?case by simp
next
  case (Cons j p)
  show ?case
  proof (cases "is_obj c \<and> is_obj d")
    case False
    hence "defaultsDeep c d = c" by (cases c; cases d) auto
    with Cons.prems show ?thesis by simp
  next
    case True
    then obtain cl dl where c: "c = VObj cl" and d: "d = VObj dl"
      by (cases c; cases d) auto
    have w: "wfs dl" using Cons.prems(1) d by simp
    from Cons.prems(2) obtain x where mx: "map_of (fill cl dl) j = Some x"
      and lx: "lookup_path x p = Some v'"
      by (auto simp: c d split: option.splits)
    show ?thesis
    proof (cases "map_of cl j")
      case None
      with fill_key[OF w, of cl j] mx have "map_of dl j = Some x" by simp
      thus ?thesis using lx by (simp add: d)
    next
      case (Some cv)
      show ?thesis
      proof (cases "map_of dl j")
        case None
        with fill_key[OF w, of cl j] mx Some have "x = cv" by simp
        thus ?thesis using lx Some by (simp add: c)
      next
        case (Some dv)
        with fill_key[OF w, of cl j] mx \<open>map_of cl j = Some cv\<close>
        have x: "x = defaultsDeep cv dv" by simp
        have "wf dv" by (rule map_of_wf[OF w Some])
        from Cons.IH[OF this lx[unfolded x]] show ?thesis
          using Some \<open>map_of cl j = Some cv\<close> by (auto simp: c d)
      qed
    qed
  qed
qed

lemma defaultsDeep_keeps_path_obj:
  assumes "lookup_path c p = Some v"
  shows "\<exists>v'. lookup_path (defaultsDeep c d) p = Some v'
          \<and> (\<not> is_obj v \<longrightarrow> v' = v) \<and> (is_obj v \<longrightarrow> is_obj v')"
proof -
  from foldl_defaultsDeep_path[OF assms, of "[d]"] obtain ss where
    "lookup_path (defaultsDeep c d) p = Some (foldl defaultsDeep v ss)" by auto
  thus ?thesis by (auto simp: foldl_defaultsDeep_atom is_obj_foldl_defaultsDeep)
qed

lemma applyDefaults_config:
  "config (outcome_state (applyDefaults ident st)) = config st
   \<or> (\<exists>d. config (outcome_state (applyDefaults ident st)) = defaultsDeep (config st) d)"
  by (auto simp: applyDefaults_def Let_def split: option.splits)

lemma applyDefaults_keeps_path:
  assumes "lookup_path (config st) p = Some v"
  shows "\<exists>v'. lookup_path (config (outcome_state (applyDefaults ident st))) p = Some v'
          \<and> (\<not> is_obj v \<longrightarrow> v' = v) \<and> (is_obj v \<longrightarrow> is_obj v')"
  using applyDefaults_config[of ident st] defaultsDeep_keeps_path_obj[OF assms] assms
  by auto

text \<open>
  Claim C6. The merge of a hook's defaults into the shared configuration never overwrites
  a key that is already present, at any depth: the value found under a path of keys is
  still found there after the merge; it is the same value unless it is an object, and an
  object stays an object (it may only gain keys). Only missing keys are filled in: a key
  that an object of the configuration lacks and the defaults have at the same place gets
  the default's value, and every path of the result is a path of the configuration or of
  the defaults. Key by key, a present key keeps its value or is merged with the default's
  value for it, and a missing key takes the default. Merging \<^verbatim>\<open>{a: 2, b: 3}\<close> into \<^verbatim>\<open>{a: 1}\<close>
  gives \<^verbatim>\<open>{a: 1, b: 3}\<close>. The merge is idempotent: merging the same defaults object a second
  time changes nothing. \<^verbatim>\<open>applyDefaults\<close>, whatever the hook, changes the shared configuration
  only through this merge, so it keeps every value already present.
\<close>

theorem defaults_merge_fills_only_missing:
  "(lookup_path c p = Some v \<longrightarrow>
      (\<exists>v'. lookup_path (defaultsDeep c d) p = Some v'
         \<and> (\<not> is_obj v \<longrightarrow> v' = v) \<and> (is_obj v \<longrightarrow> is_obj v')))
   \<and> (wf d \<and> lookup_path c q = Some (VObj ob) \<and> map_of ob k = None
        \<and> lookup_path d (q @ [k]) = Some w
      \<longrightarrow> lookup_path (defaultsDeep c d) (q @ [k]) = Some w)
   \<and> (wf d \<and> lookup_path (defaultsDeep c d) r = Some u
      \<longrightarrow> lookup_path c r \<noteq> None \<or> lookup_path d r \<noteq> None)
   \<and> (wfs dl \<longrightarrow>
        map_of (fill cl dl) j =
          (case map_of cl j of
             Some cv \<Rightarrow> Some (case map_of dl j of None \<Rightarrow> cv | Some dv \<Rightarrow> defaultsDeep cv dv)
           | None \<Rightarrow> map_of dl j))
   \<and> defaultsDeep (VObj [(''a'', VNum 1)]) (VObj [(''a'', VNum 2), (''b'', VNum 3)])
       = VObj [(''a'', VNum 1), (''b'', VNum 3)]
   \<and> (wf d \<longrightarrow> defaultsDeep (defaultsDeep c d) d = defaultsDeep c d)
   \<and> (lookup_path (config st) p = Some v \<longrightarrow>
      (\<exists>v'. lookup_path (config (outcome_state (applyDefaults ident st))) p = Some v'
         \<and> (\<not> is_obj v \<longrightarrow> v' = v) \<and> (is_obj v \<longrightarrow> is_obj v')))"
  using defaultsDeep_keeps_path_obj[of c p v d] defaultsDeep_fills_missing[of c q ob k d w]
    defaultsDeep_path_origin[of d c r u] fill_key[of dl cl j]
    defaultsDeep_fill_idem(1)[of d c] applyDefaults_keeps_path[of st p v ident]
  by simp

theorem defaults_merge_fills_only_missing_witness:
  "lookup_path config_example [''a'', ''x''] = Some (VNum 1) \<and> \<not> is_obj (VNum 1)
   \<and> lookup_path (defaultsDeep config_example defaults_example) [''a'', ''x''] = Some (VNum 1)
   \<and> wf defaults_example
   \<and> lookup_path config_example [''a''] = Some (VObj [(''x'', VNum 1)])
   \<and> map_of [(''x'', VNum 1)] ''y'' = None
   \<and> lookup_path defaults_example ([''a''] @ [''y'']) = Some (VNum 3)
   \<and> lookup_path (defaultsDeep config_example defaults_example) ([''a''] @ [''y'']) = Some (VNum 3)
   \<and> lookup_path (defaultsDeep config_example defaults_example) [''b''] = Some (VNum 4)
   \<and> lookup_path defaults_example [''b''] = Some (VNum 4)
   \<and> wfs [(''a'', VObj [(''x'', VNum 2), (''y'', VNum 3)]), (''b'', VNum 4)]
   \<and> map_of (fill [(''a'', VObj [(''x'', VNum 1)])]
         [(''a'', VObj [(''x'', VNum 2), (''y'', VNum 3)]), (''b'', VNum 4)]) ''b'' = Some (VNum 4)
   \<and> defaultsDeep (defaultsDeep config_example defaults_example) defaults_example
       = defaultsDeep config_example defaults_example
   \<and> lookup_path (config (init [(''foo'', Inst (hook_with_defaults ''foo'' (DVal defaults_example)))]
         config_example)) [''a'', ''x''] = Some (VNum 1)
   \<and> lookup_path (config (outcome_state (applyDefaults ''foo''
         (init [(''foo'', Inst (hook_with_defaults ''foo'' (DVal defaults_example)))]
            config_example)))) [''a'', ''x''] = Some (VNum 1)"
proof -
  have h: "lookup_path config_example [''a'', ''x''] = Some (VNum 1)" "\<not> is_obj (VNum 1)"
    "wf defaults_example"
    "lookup_path config_example [''a''] = Some (VObj [(''x'', VNum 1)])"
    "map_of [(''x'', VNum 1)] ''y'' = None"
    "lookup_path defaults_example ([''a''] @ [''y'']) = Some (VNum 3)"
    "lookup_path (defaultsDeep config_example defaults_example) [''b''] = Some (VNum 4)"
    "lookup_path defaults_example [''b''] = Some (VNum 4)"
    "wfs [(''a'', VObj [(''x'', VNum 2), (''y'', VNum 3)]), (''b'', VNum 4)]"
    "lookup_path (config (init [(''foo'', Inst (hook_with_defaults ''foo'' (DVal defaults_example)))]
         config_example)) [''a'', ''x''] = Some (VNum 1)"
    by (simp_all add: config_example_def defaults_example_def init_def)
  from defaults_merge_fills_only_missing
         [of config_example "[''a'', ''x'']" "VNum 1" defaults_example
             "[''a'']" "[(''x'', VNum 1)]" "''y''" "VNum 3" "[''b'']" "VNum 4"
             "[(''a'', VObj [(''x'', VNum 2), (''y'', VNum 3)]), (''b'', VNum 4)]"
             "[(''a'', VObj [(''x'', VNum 1)])]" "''b''"
             "init [(''foo'', Inst (hook_with_defaults ''foo'' (DVal defaults_example)))] config_example"
             "''foo''"] h
  show ?thesis by simp
qed

section \<open>Evaluating the model\<close>

lemmas record_defs = init_def act_def caller_cb_def hooksReady_def Hook_def plain_factory_def
  plain_hook_def hook_with_defaults_def

lemmas run_defs = initializeHooks_def stage_moduleloader_def stage_userconfig_def
  stage_userhooks_def stage_validate_def stage_prepare_def stage_defaults_def
  stage_configure_def stage_load_def bootstrap_task_def load_item_def configure_item_def
  configure_cb_def each_cb_def hook_cb_def loaded_def tooLong_def fire_def clearTimeout_def
  prepareHook_def applyDefaults_def configure_hook_def loadHook_def timeoutInterval_def
  other_ids_def thenS_def js_or_def js_and_get_def
  namespace_prefix_def toLowerCase_def lower_char_def Let_def

lemma truthy_hooksTookTooLongErr: "truthy (hooksTookTooLongErr i k v)"
  by (simp add: hooksTookTooLongErr_def)

lemma timeout_example_run: "initializeHooks timeout_example = Inr timeout_started"
  by (simp add: timeout_example_def timeout_started_def run_defs record_defs)

lemma timeout_started_fire: "fire 0 timeout_started = Inr timeout_fired"
  by (simp add: timeout_started_def timeout_fired_def run_defs record_defs
      truthy_hooksTookTooLongErr)

lemma two_hooks_run: "initializeHooks two_hooks = Inr two_hooks_started"
  by (simp add: two_hooks_def two_hooks_started_def run_defs record_defs)

section \<open>The Timeout Guard\<close>

lemma hook_cb_error_trace:
  assumes "truthy err"
  shows "\<exists>rest. trace (outcome_state (hook_cb ident err st)) = trace st @ HookCb ident err # rest"
  using assms
  by (auto simp: hook_cb_def each_cb_def hooksReady_def caller_cb_def act_def Let_def)

text \<open>
  Claim C1, as amended. When the deadline timer of a hook other than \<^verbatim>\<open>userhooks\<close> fires
  before the hook's load has signalled completion, the Timeout Guard calls the hook's
  callback with a timeout error that carries the code \<^verbatim>\<open>E_HOOK_TIMEOUT\<close>, the hook id and the
  interval. A completion signal that arrives after that is not ignored: the completion
  handler runs as for any completion, so a success still logs, emits \<^verbatim>\<open>hook:<id>:loaded\<close>
  and calls the hook's callback a second time, which \<^verbatim>\<open>async\<close> rejects.
\<close>

theorem timeout_fires_and_late_completion_still_handled:
  "(h < length (timers st) \<and> \<not> t_cleared (timers st ! h) \<and> \<not> t_fired (timers st ! h)
      \<and> map_of (hooks st) (t_owner (timers st ! h)) = Some (Inst hk) \<longrightarrow>
      (\<exists>rest. trace (outcome_state (fire h st))
         = trace st @ HookCb (t_owner (timers st ! h))
             (hooksTookTooLongErr (t_owner (timers st ! h))
                (js_or (h_configKey hk) (VStr (t_owner (timers st ! h))))
                (t_interval (timers st ! h))) # rest))
   \<and> (LoadStart ident \<in> set (trace st) \<and> list_ex (is_cb_of ident) (trace st) \<and> \<not> truthy err \<longrightarrow>
      (\<exists>st'. step (LoadDone ident err) st = Inl (CallbackAlreadyCalled, st')
         \<and> trace st' = trace st @ [Log ''verbose'' (ident @ '' hook loaded successfully.''),
                                   Emit (''hook:'' @ ident @ '':loaded''), HookCb ident VUndef]))"
proof (intro conjI impI)
  assume a: "h < length (timers st) \<and> \<not> t_cleared (timers st ! h) \<and> \<not> t_fired (timers st ! h)
      \<and> map_of (hooks st) (t_owner (timers st ! h)) = Some (Inst hk)"
  let ?st1 = "st\<lparr>timers := (timers st)[h := (timers st ! h)\<lparr>t_fired := True\<rparr>]\<rparr>"
  let ?e = "hooksTookTooLongErr (t_owner (timers st ! h))
                (js_or (h_configKey hk) (VStr (t_owner (timers st ! h))))
                (t_interval (timers st ! h))"
  have t: "truthy ?e" by (simp add: truthy_hooksTookTooLongErr)
  have "fire h st = hook_cb (t_owner (timers st ! h)) ?e ?st1"
    using a by (simp add: fire_def tooLong_def)
  moreover from hook_cb_error_trace[OF t, of "t_owner (timers st ! h)" ?st1]
  obtain rest where "trace (outcome_state (hook_cb (t_owner (timers st ! h)) ?e ?st1))
      = trace st @ HookCb (t_owner (timers st ! h)) ?e # rest" by auto
  ultimately show "\<exists>rest. trace (outcome_state (fire h st))
         = trace st @ HookCb (t_owner (timers st ! h)) ?e # rest" by auto
next
  assume a: "LoadStart ident \<in> set (trace st) \<and> list_ex (is_cb_of ident) (trace st) \<and> \<not> truthy err"
  have c: "list_ex (is_cb_of ident) (trace (clearTimeout x st))" for x
    using a by (simp add: clearTimeout_def)
  show "\<exists>st'. step (LoadDone ident err) st = Inl (CallbackAlreadyCalled, st')
         \<and> trace st' = trace st @ [Log ''verbose'' (ident @ '' hook loaded successfully.''),
                                   Emit (''hook:'' @ ident @ '':loaded''), HookCb ident VUndef]"
    using a c
    by (auto simp: loaded_def hook_cb_def act_def clearTimeout_def Let_def split: option.splits)
qed

theorem timeout_fires_and_late_completion_still_handled_witness:
  "0 < length (timers timeout_started) \<and> \<not> t_cleared (timers timeout_started ! 0)
   \<and> \<not> t_fired (timers timeout_started ! 0)
   \<and> map_of (hooks timeout_started) (t_owner (timers timeout_started ! 0))
       = Some (Inst (plain_hook ''foo''))
   \<and> (\<exists>rest. trace (outcome_state (fire 0 timeout_started))
         = trace timeout_started
           @ HookCb ''foo'' (hooksTookTooLongErr ''foo'' (VStr ''foo'') (VNum 50)) # rest)
   \<and> LoadStart ''foo'' \<in> set (trace timeout_fired)
   \<and> list_ex (is_cb_of ''foo'') (trace timeout_fired) \<and> \<not> truthy VUndef
   \<and> (\<exists>st'. step (LoadDone ''foo'' VUndef) timeout_fired = Inl (CallbackAlreadyCalled, st')
         \<and> trace st' = trace timeout_fired @ [Log ''verbose'' ''foo hook loaded successfully.'',
                                   Emit ''hook:foo:loaded'', HookCb ''foo'' VUndef])"
proof -
  have 1: "0 < length (timers timeout_started) \<and> \<not> t_cleared (timers timeout_started ! 0)
     \<and> \<not> t_fired (timers timeout_started ! 0)
     \<and> map_of (hooks timeout_started) (t_owner (timers timeout_started ! 0))
         = Some (Inst (plain_hook ''foo''))"
    by (simp add: timeout_started_def)
  have 2: "LoadStart ''foo'' \<in> set (trace timeout_fired)
     \<and> list_ex (is_cb_of ''foo'') (trace timeout_fired) \<and> \<not> truthy VUndef"
    by (simp add: timeout_fired_def timeout_started_def)
  have o: "t_owner (timers timeout_started ! 0) = ''foo''"
    and i: "t_interval (timers timeout_started ! 0) = VNum 50"
    and k: "js_or (h_configKey (plain_hook ''foo'')) (VStr ''foo'') = VStr ''foo''"
    by (simp_all add: timeout_started_def plain_hook_def Hook_def js_or_def)
  from timeout_fires_and_late_completion_still_handled
         [of 0 timeout_started "plain_hook ''foo''" "''foo''" VUndef] 1
  have 3: "\<exists>rest. trace (outcome_state (fire 0 timeout_started))
         = trace timeout_started
           @ HookCb ''foo'' (hooksTookTooLongErr ''foo'' (VStr ''foo'') (VNum 50)) # rest"
    by (simp add: o i k)
  from timeout_fires_and_late_completion_still_handled
         [of 0 timeout_fired "plain_hook ''foo''" "''foo''" VUndef] 2
  have 4: "\<exists>st'. step (LoadDone ''foo'' VUndef) timeout_fired = Inl (CallbackAlreadyCalled, st')
         \<and> trace st' = trace timeout_fired @ [Log ''verbose'' ''foo hook loaded successfully.'',
                                   Emit ''hook:foo:loaded'', HookCb ''foo'' VUndef]"
    by simp
  from 1 2 3 4 show ?thesis by blast
qed

text \<open>The claim as the specification words it fails: after the timeout of \<^verbatim>\<open>foo\<close>, a late
  success of its load emits \<^verbatim>\<open>hook:foo:loaded\<close> and calls the callback of \<^verbatim>\<open>foo\<close> again.\<close>

theorem late_completion_counterexample:
  "trace (outcome_state (run_events [TimerFire 0, LoadDone ''foo'' VUndef]
      (initializeHooks timeout_example)))
   = [Log ''silly'' ''Loading hook: foo'', LoadStart ''foo'',
      HookCb ''foo'' (hooksTookTooLongErr ''foo'' (VStr ''foo'') (VNum 50)),
      CallerCb (hooksTookTooLongErr ''foo'' (VStr ''foo'') (VNum 50)),
      Log ''verbose'' ''foo hook loaded successfully.'',
      Emit ''hook:foo:loaded'',
      HookCb ''foo'' VUndef]"
  by (simp add: timeout_example_run timeout_started_fire thenS_def)
    (simp add: timeout_fired_def timeout_started_def loaded_def hook_cb_def act_def
      clearTimeout_def Let_def)

section \<open>Cancelling the timers of a run\<close>

lemma clearTimeout_length: "length (timers (clearTimeout x st)) = length (timers st)"
  by (simp add: clearTimeout_def)

lemma clearTimeout_hookTimeouts: "hookTimeouts (clearTimeout x st) = hookTimeouts st"
  by (simp add: clearTimeout_def)

lemma clearTimeout_cleared:
  "h < length (timers st) \<Longrightarrow> x = h \<or> t_cleared (timers st ! h)
     \<Longrightarrow> t_cleared (timers (clearTimeout x st) ! h)"
  by (auto simp: clearTimeout_def nth_list_update)

lemma fold_clearTimeout_length: "length (timers (fold clearTimeout hs st)) = length (timers st)"
  by (induction hs arbitrary: st) (simp_all add: clearTimeout_length)

lemma fold_clearTimeout_keeps:
  "h < length (timers st) \<Longrightarrow> t_cleared (timers st ! h)
     \<Longrightarrow> t_cleared (timers (fold clearTimeout hs st) ! h)"
  by (induction hs arbitrary: st) (simp_all add: clearTimeout_length clearTimeout_cleared)

lemma fold_clearTimeout_cleared:
  "h \<in> set hs \<Longrightarrow> h < length (timers st) \<Longrightarrow> t_cleared (timers (fold clearTimeout hs st) ! h)"
proof (induction hs arbitrary: st)
  case Nil
  then show ?case by simp
next
  case (Cons x hs)
  show ?case
  proof (cases "x = h")
    case True
    have "t_cleared (timers (clearTimeout x st) ! h)"
      using Cons.prems True by (simp add: clearTimeout_cleared)
    thus ?thesis using Cons.prems
      by (simp add: fold_clearTimeout_keeps clearTimeout_length)
  next
    case False
    with Cons show ?thesis by (simp add: clearTimeout_length)
  qed
qed

lemma hook_cb_error_timers:
  "truthy err \<Longrightarrow> timers (outcome_state (hook_cb ident err st)) = timers st"
  by (simp add: hook_cb_def each_cb_def hooksReady_def caller_cb_def act_def Let_def)

lemma loaded_error_timers:
  assumes "truthy err"
  shows "\<exists>st1. timers (outcome_state (loaded ident err st))
           = timers (fold clearTimeout (hookTimeouts st) st1)
         \<and> length (timers st1) = length (timers st)"
proof -
  define st1 where "st1 = (if ident \<noteq> ''userhooks''
                 then (case map_of (handles st) ident of
                         None \<Rightarrow> st | Some h \<Rightarrow> clearTimeout h st)
                 else st)"
  have h: "hookTimeouts st1 = hookTimeouts st" and l: "length (timers st1) = length (timers st)"
    by (simp_all add: st1_def clearTimeout_hookTimeouts clearTimeout_length split: option.splits)
  have "timers (outcome_state (loaded ident err st))
          = timers (fold clearTimeout (hookTimeouts st1) st1)"
    using assms unfolding loaded_def st1_def[symmetric] Let_def
    by (simp add: hook_cb_error_timers act_def)
  thus ?thesis using h l by auto
qed

text \<open>
  Claim C3, as amended. Whenever the load of a hook reports a failure through its
  completion callback, every timer tracked in \<^verbatim>\<open>hookTimeouts\<close> is cancelled at once,
  whichever hook owns it; so if the load of hook A fails while the timer of hook B is
  pending, that timer does nothing when its time comes and no timeout error for B is
  produced.
\<close>

theorem load_failure_clears_every_tracked_timer:
  assumes "truthy err" and "h \<in> set (hookTimeouts st)"
  shows "(h < length (timers st) \<longrightarrow> t_cleared (timers (outcome_state (loaded ident err st)) ! h))
       \<and> fire h (outcome_state (loaded ident err st)) = Inr (outcome_state (loaded ident err st))"
proof -
  from loaded_error_timers[OF assms(1), of ident st] obtain st1 where
    t: "timers (outcome_state (loaded ident err st)) = timers (fold clearTimeout (hookTimeouts st) st1)"
    and l: "length (timers st1) = length (timers st)" by blast
  have c: "h < length (timers st) \<Longrightarrow> t_cleared (timers (outcome_state (loaded ident err st)) ! h)"
    using fold_clearTimeout_cleared[OF assms(2), of st1] l t by simp
  have len: "length (timers (outcome_state (loaded ident err st))) = length (timers st)"
    using t l by (simp add: fold_clearTimeout_length)
  show ?thesis using c len by (auto simp: fire_def)
qed

theorem load_failure_clears_every_tracked_timer_witness:
  "truthy (VStr ''boom'') \<and> 1 \<in> set (hookTimeouts two_hooks_started)
   \<and> 1 < length (timers two_hooks_started)
   \<and> t_owner (timers two_hooks_started ! 1) = ''b''
   \<and> t_cleared (timers (outcome_state (loaded ''a'' (VStr ''boom'') two_hooks_started)) ! 1)
   \<and> fire 1 (outcome_state (loaded ''a'' (VStr ''boom'') two_hooks_started))
       = Inr (outcome_state (loaded ''a'' (VStr ''boom'') two_hooks_started))"
proof -
  have 1: "truthy (VStr ''boom'')" and 2: "1 \<in> set (hookTimeouts two_hooks_started)"
    and 3: "1 < length (timers two_hooks_started)"
    and 4: "t_owner (timers two_hooks_started ! 1) = ''b''"
    by (simp_all add: two_hooks_started_def)
  from load_failure_clears_every_tracked_timer[OF 1 2, of "''a''"] 1 2 3 4
  show ?thesis by simp
qed

text \<open>The claim as the specification words it includes the timeout among the failures; the
  timeout of \<^verbatim>\<open>a\<close> leaves the timer of \<^verbatim>\<open>b\<close> pending, and a timeout error for \<^verbatim>\<open>b\<close> follows.\<close>

theorem sibling_timeout_counterexample:
  "trace (outcome_state (run_events [TimerFire 0, TimerFire 1] (initializeHooks two_hooks)))
   = [Log ''silly'' ''Loading hook: a'', LoadStart ''a'',
      Log ''silly'' ''Loading hook: b'', LoadStart ''b'',
      HookCb ''a'' (hooksTookTooLongErr ''a'' (VStr ''a'') (VNum 20000)),
      CallerCb (hooksTookTooLongErr ''a'' (VStr ''a'') (VNum 20000)),
      HookCb ''b'' (hooksTookTooLongErr ''b'' (VStr ''b'') (VNum 20000))]"
  by (simp add: two_hooks_run thenS_def)
    (simp add: two_hooks_started_def fire_def tooLong_def hook_cb_def each_cb_def act_def
      hooksReady_def caller_cb_def plain_hook_def Hook_def js_or_def Let_def
      truthy_hooksTookTooLongErr)

section \<open>The configuration check, the placeholder key and the timeout value\<close>

text \<open>
  Claim C2. With \<^verbatim>\<open>userconfig\<close> registered and \<^verbatim>\<open>moduleloader\<close> not, the run should fail with the
  configuration error and do nothing more for any hook. Evaluated on such a registry,
  \<^verbatim>\<open>prepareHook\<close> hands the error to the caller and returns, and the \<^verbatim>\<open>userconfig\<close> task goes
  on to \<^verbatim>\<open>applyDefaults\<close> on the unprepared definition, which throws a type error.
\<close>

theorem userconfig_without_moduleloader_goes_on:
  "initializeHooks (init [(''userconfig'', Factory f)] c)
     = Inl (TypeError,
            (init [(''userconfig'', Factory f)] c)
              \<lparr>trace := [CallerCb invalid_configuration], stage := 1\<rparr>)"
  by (simp add: initializeHooks_def stage_moduleloader_def stage_userconfig_def bootstrap_task_def
      prepareHook_def applyDefaults_def thenS_def Let_def record_defs)

text \<open>
  Claim C5. The placeholder \<^verbatim>\<open>__configKey__\<close> of the resolved defaults should move under the
  hook's \<^verbatim>\<open>configKey\<close> before the merge. Evaluated on a hook \<^verbatim>\<open>foo\<close> whose \<^verbatim>\<open>defaults\<close> is a
  function returning \<^verbatim>\<open>{__configKey__: {a: 1}}\<close>, the placeholder is merged into the shared
  configuration as it is; the same defaults given as an object are rewritten.
\<close>

theorem function_defaults_placeholder_not_rewritten:
  "config (outcome_state (applyDefaults ''foo''
      (init [(''foo'', Inst (hook_with_defaults ''foo''
                (DFun [] (\<lambda>c. VObj [(''__configKey__'', VObj [(''a'', VNum 1)])]))))] (VObj []))))
     = VObj [(''__configKey__'', VObj [(''a'', VNum 1)])]
   \<and> config (outcome_state (applyDefaults ''foo''
      (init [(''foo'', Inst (hook_with_defaults ''foo''
                (DVal (VObj [(''__configKey__'', VObj [(''a'', VNum 1)])]))))] (VObj []))))
     = VObj [(''foo'', VObj [(''a'', VNum 1)])]"
  by (simp add: applyDefaults_def record_defs js_or_def move_key_def Let_def)

text \<open>
  Claim C8, as amended. For a prepared hook other than \<^verbatim>\<open>userhooks\<close>, \<^verbatim>\<open>loadHook\<close> starts one
  timer, tracked in \<^verbatim>\<open>hookTimeouts\<close>, whose interval is resolved in this order:
  \<^verbatim>\<open>sails.config[hook.configKey]._hookTimeout\<close> if it is truthy, else \<^verbatim>\<open>sails.config.hookTimeout\<close>
  if it is truthy, else the fixed default 20000.
\<close>

theorem timeout_interval_resolution:
  assumes "map_of (hooks st) ident = Some (Inst h)" and "ident \<noteq> ''userhooks''"
  shows "\<exists>st'. loadHook ident st = Inr st'
     \<and> hookTimeouts st' = hookTimeouts st @ [length (timers st)]
     \<and> length (timers st') = Suc (length (timers st))
     \<and> t_interval (timers st' ! length (timers st)) =
        (let sect = get (config st) (js_toString (js_or (h_configKey h) (VStr ident))) in
         if truthy sect \<and> truthy (get sect ''_hookTimeout'') then get sect ''_hookTimeout''
         else if truthy (get (config st) ''hookTimeout'') then get (config st) ''hookTimeout''
         else VNum 20000)"
  using assms
  by (simp add: loadHook_def timeoutInterval_def js_or_def js_and_get_def Let_def act_def)

theorem timeout_interval_resolution_witness:
  "map_of (hooks (init [(''foo'', Inst (plain_hook ''foo''))]
       (VObj [(''foo'', VObj [(''_hookTimeout'', VNum 50)]), (''hookTimeout'', VNum 7)]))) ''foo''
     = Some (Inst (plain_hook ''foo'')) \<and> ''foo'' \<noteq> ''userhooks''
   \<and> (\<exists>st'. loadHook ''foo'' (init [(''foo'', Inst (plain_hook ''foo''))]
       (VObj [(''foo'', VObj [(''_hookTimeout'', VNum 50)]), (''hookTimeout'', VNum 7)])) = Inr st'
       \<and> t_interval (timers st' ! 0) = VNum 50)"
  using timeout_interval_resolution[of "init [(''foo'', Inst (plain_hook ''foo''))]
       (VObj [(''foo'', VObj [(''_hookTimeout'', VNum 50)]), (''hookTimeout'', VNum 7)])"
       "''foo''" "plain_hook ''foo''"]
  by (auto simp add: record_defs js_or_def Let_def)

text \<open>The claim as the specification words it takes a value that exists; a \<^verbatim>\<open>_hookTimeout\<close> of 0
  exists and is passed over for the default.\<close>

theorem timeout_zero_counterexample:
  "get (get (VObj [(''foo'', VObj [(''_hookTimeout'', VNum 0)])]) ''foo'') ''_hookTimeout'' = VNum 0
   \<and> map t_interval (timers (outcome_state (loadHook ''foo''
        (init [(''foo'', Inst (plain_hook ''foo''))]
           (VObj [(''foo'', VObj [(''_hookTimeout'', VNum 0)])])))))
      = [VNum 20000]"
  by (simp add: loadHook_def timeoutInterval_def js_or_def js_and_get_def Let_def record_defs)

section \<open>A bootstrap hook set to the string "false"\<close>

lemma bootstrap_false_string:
  assumes "is_false_string (map_of (hooks st) b)"
  shows "bootstrap_task b i nxt st
           = Inl (TypeError, st\<lparr>stage := i, hooks := AList.delete b (hooks st)\<rparr>)"
proof -
  from assms have t: "truthy_entry (map_of (hooks st) b)"
    by (cases "map_of (hooks st) b" rule: is_false_string.cases) auto
  have p: "prepareHook b (st\<lparr>stage := i\<rparr>)
             = Inr (st\<lparr>stage := i, hooks := AList.delete b (hooks st)\<rparr>)"
    using assms by (simp add: prepareHook_def)
  show ?thesis using t unfolding bootstrap_task_def Let_def
    by (simp add: p thenS_def applyDefaults_def delete_conv')
qed

lemma false_string_truthy: "is_false_string e \<Longrightarrow> truthy_entry e"
  by (cases e rule: is_false_string.cases) auto

text \<open>
  Claim C10. When a bootstrap id is registered with the string \<^verbatim>\<open>"false"\<close>, the presence check
  of its task does not skip it, since the string is truthy; \<^verbatim>\<open>prepareHook\<close> deletes the id and
  returns without making a \<^verbatim>\<open>Hook\<close>; \<^verbatim>\<open>applyDefaults\<close> is then called on the missing entry, and
  the run stops with a type error instead of treating the hook as disabled.
\<close>

theorem bootstrap_false_string_crashes:
  "(is_false_string (map_of (hooks st) ''moduleloader'') \<longrightarrow>
      truthy_entry (map_of (hooks st) ''moduleloader'')
      \<and> stage_moduleloader st
        = Inl (TypeError, st\<lparr>stage := 0, hooks := AList.delete ''moduleloader'' (hooks st)\<rparr>))
   \<and> (is_false_string (map_of (hooks st) ''userconfig'') \<longrightarrow>
      truthy_entry (map_of (hooks st) ''userconfig'')
      \<and> stage_userconfig st
        = Inl (TypeError, st\<lparr>stage := 1, hooks := AList.delete ''userconfig'' (hooks st)\<rparr>))
   \<and> (is_false_string (map_of (hooks st) ''userhooks'') \<longrightarrow>
      truthy_entry (map_of (hooks st) ''userhooks'')
      \<and> stage_userhooks st
        = Inl (TypeError, st\<lparr>stage := 2, hooks := AList.delete ''userhooks'' (hooks st)\<rparr>))"
  by (simp add: stage_moduleloader_def stage_userconfig_def stage_userhooks_def
      bootstrap_false_string false_string_truthy)

theorem bootstrap_false_string_crashes_witness:
  "is_false_string
     (map_of (hooks (init [(''moduleloader'', Raw (VStr ''false''))] (VObj []))) ''moduleloader'')
   \<and> initializeHooks (init [(''moduleloader'', Raw (VStr ''false''))] (VObj []))
       = Inl (TypeError, init [] (VObj []))"
  using bootstrap_false_string_crashes[of "init [(''moduleloader'', Raw (VStr ''false''))] (VObj [])"]
  by (simp add: initializeHooks_def init_def)

section \<open>Invariants of a run\<close>

lemma thenS_invariant:
  "P (outcome_state r) \<Longrightarrow> (\<And>s. P s \<Longrightarrow> P (outcome_state (f s))) \<Longrightarrow> P (outcome_state (thenS r f))"
  by (cases r) (auto simp: thenS_def)

lemma each_sync_invariant:
  "(\<And>x s. x \<in> set xs \<Longrightarrow> P s \<Longrightarrow> P (outcome_state (f x s))) \<Longrightarrow> P st
     \<Longrightarrow> P (outcome_state (each_sync f xs st))"
proof (induction xs arbitrary: st)
  case Nil
  then show ?case by simp
next
  case (Cons x xs)
  show ?case
    unfolding each_sync.simps
    by (rule thenS_invariant) (use Cons in auto)
qed

lemma nut_thenS:
  "no_userhooks_timer (outcome_state r)
     \<Longrightarrow> (\<And>s. no_userhooks_timer s \<Longrightarrow> no_userhooks_timer (outcome_state (f s)))
     \<Longrightarrow> no_userhooks_timer (outcome_state (thenS r f))"
  by (rule thenS_invariant[where P = no_userhooks_timer])

lemma nut_each_sync:
  "(\<And>x s. no_userhooks_timer s \<Longrightarrow> no_userhooks_timer (outcome_state (f x s)))
     \<Longrightarrow> no_userhooks_timer st
     \<Longrightarrow> no_userhooks_timer (outcome_state (each_sync f xs st))"
  by (rule each_sync_invariant[where P = no_userhooks_timer])

lemma prepareHook_timers: "timers (outcome_state (prepareHook ident st)) = timers st"
  by (simp add: prepareHook_def Let_def caller_cb_def act_def split: option.splits)

lemma applyDefaults_timers: "timers (outcome_state (applyDefaults ident st)) = timers st"
  by (simp add: applyDefaults_def Let_def split: option.splits)

lemma configure_hook_timers: "timers (outcome_state (configure_hook ident st)) = timers st"
  by (simp add: configure_hook_def split: option.splits entry.splits sum.splits)

lemma configure_item_timers: "timers (outcome_state (configure_item ident st)) = timers st"
  by (simp add: configure_item_def configure_cb_def hooksReady_def caller_cb_def act_def
      split: option.splits entry.splits sum.splits)

lemma nut_prepareHook: "no_userhooks_timer st \<Longrightarrow> no_userhooks_timer (outcome_state (prepareHook i st))"
  by (simp add: no_userhooks_timer_def prepareHook_timers)

lemma nut_applyDefaults: "no_userhooks_timer st \<Longrightarrow> no_userhooks_timer (outcome_state (applyDefaults i st))"
  by (simp add: no_userhooks_timer_def applyDefaults_timers)

lemma nut_configure_hook: "no_userhooks_timer st \<Longrightarrow> no_userhooks_timer (outcome_state (configure_hook i st))"
  by (simp add: no_userhooks_timer_def configure_hook_timers)

lemma nut_configure_item: "no_userhooks_timer st \<Longrightarrow> no_userhooks_timer (outcome_state (configure_item i st))"
  by (simp add: no_userhooks_timer_def configure_item_timers)

lemma nut_loadHook: "no_userhooks_timer st \<Longrightarrow> no_userhooks_timer (outcome_state (loadHook i st))"
  by (auto simp: no_userhooks_timer_def loadHook_def Let_def act_def
      split: option.splits entry.splits)

lemma nut_load_item: "no_userhooks_timer st \<Longrightarrow> no_userhooks_timer (outcome_state (load_item i st))"
  unfolding load_item_def by (rule nut_loadHook) (simp add: no_userhooks_timer_def act_def)

lemma nut_stage_load: "no_userhooks_timer st \<Longrightarrow> no_userhooks_timer (outcome_state (stage_load st))"
proof -
  assume a: "no_userhooks_timer st"
  have b: "no_userhooks_timer (st\<lparr>stage := x, each_called := y, completed := z, total := w\<rparr>)"
    for x y z w using a by (simp add: no_userhooks_timer_def)
  show ?thesis
    unfolding stage_load_def Let_def
    by (simp add: nut_each_sync nut_load_item b)
       (simp add: no_userhooks_timer_def hooksReady_def caller_cb_def act_def a[unfolded no_userhooks_timer_def])
qed

lemma nut_stage_configure:
  "no_userhooks_timer st \<Longrightarrow> no_userhooks_timer (outcome_state (stage_configure st))"
proof -
  assume a: "no_userhooks_timer st"
  have b: "no_userhooks_timer (st\<lparr>stage := x, each_called := y, completed := z, total := w\<rparr>)"
    for x y z w using a by (simp add: no_userhooks_timer_def)
  show ?thesis
    unfolding stage_configure_def Let_def
    by (rule nut_thenS) (simp_all add: nut_each_sync nut_configure_item nut_stage_load b)
qed

lemma nut_stage_defaults:
  "no_userhooks_timer st \<Longrightarrow> no_userhooks_timer (outcome_state (stage_defaults st))"
proof -
  assume a: "no_userhooks_timer st"
  have b: "no_userhooks_timer (st\<lparr>stage := x\<rparr>)" for x
    using a by (simp add: no_userhooks_timer_def)
  show ?thesis
    unfolding stage_defaults_def
    by (rule nut_thenS) (simp_all add: nut_each_sync nut_applyDefaults nut_stage_configure b)
qed

lemma nut_stage_prepare:
  "no_userhooks_timer st \<Longrightarrow> no_userhooks_timer (outcome_state (stage_prepare st))"
proof -
  assume a: "no_userhooks_timer st"
  have b: "no_userhooks_timer (st\<lparr>stage := x\<rparr>)" for x
    using a by (simp add: no_userhooks_timer_def)
  show ?thesis
    unfolding stage_prepare_def
    by (rule nut_thenS) (simp_all add: nut_each_sync nut_prepareHook nut_stage_defaults b)
qed

lemma fold_act_timers: "timers (fold (\<lambda>m. act (f m)) ms st) = timers st"
  by (induction ms arbitrary: st) (simp_all add: act_def)

lemma nut_stage_validate:
  "no_userhooks_timer st \<Longrightarrow> no_userhooks_timer (outcome_state (stage_validate st))"
  unfolding stage_validate_def Let_def
  by (rule nut_stage_prepare) (simp add: no_userhooks_timer_def fold_act_timers)

lemma nut_bootstrap_task:
  assumes "\<And>s. no_userhooks_timer s \<Longrightarrow> no_userhooks_timer (outcome_state (nxt s))"
    and "no_userhooks_timer st"
  shows "no_userhooks_timer (outcome_state (bootstrap_task b i nxt st))"
proof -
  have s: "no_userhooks_timer (st\<lparr>stage := i\<rparr>)" using assms(2) by (simp add: no_userhooks_timer_def)
  show ?thesis
    unfolding bootstrap_task_def Let_def
    by (simp add: nut_thenS nut_prepareHook nut_applyDefaults nut_configure_hook
        nut_loadHook assms(1) s)
qed

lemma nut_stage_userhooks:
  "no_userhooks_timer st \<Longrightarrow> no_userhooks_timer (outcome_state (stage_userhooks st))"
  unfolding stage_userhooks_def by (rule nut_bootstrap_task) (auto intro: nut_stage_validate)

lemma nut_stage_userconfig:
  "no_userhooks_timer st \<Longrightarrow> no_userhooks_timer (outcome_state (stage_userconfig st))"
  unfolding stage_userconfig_def by (rule nut_bootstrap_task) (auto intro: nut_stage_userhooks)

lemma nut_stage_moduleloader:
  "no_userhooks_timer st \<Longrightarrow> no_userhooks_timer (outcome_state (stage_moduleloader st))"
  unfolding stage_moduleloader_def by (rule nut_bootstrap_task) (auto intro: nut_stage_userconfig)

lemma nut_hook_cb:
  "no_userhooks_timer st \<Longrightarrow> no_userhooks_timer (outcome_state (hook_cb i err st))"
proof -
  assume a: "no_userhooks_timer st"
  hence b: "no_userhooks_timer (act (HookCb i err) st)" by (simp add: no_userhooks_timer_def act_def)
  show ?thesis unfolding hook_cb_def Let_def
    using b nut_stage_userconfig[OF b] nut_stage_userhooks[OF b] nut_stage_validate[OF b]
    by (auto simp: no_userhooks_timer_def each_cb_def hooksReady_def caller_cb_def act_def Let_def)
qed

lemma nut_clearTimeout: "no_userhooks_timer st \<Longrightarrow> no_userhooks_timer (clearTimeout h st)"
  by (auto simp: no_userhooks_timer_def clearTimeout_def list_all_iff dest!: set_update_subset_insert[THEN subsetD])

lemma nut_fold_clearTimeout:
  "no_userhooks_timer st \<Longrightarrow> no_userhooks_timer (fold clearTimeout hs st)"
  by (induction hs arbitrary: st) (simp_all add: nut_clearTimeout)

lemma nut_act: "no_userhooks_timer st \<Longrightarrow> no_userhooks_timer (act a st)"
  by (simp add: no_userhooks_timer_def act_def)

lemma nut_loaded:
  "no_userhooks_timer st \<Longrightarrow> no_userhooks_timer (outcome_state (loaded i err st))"
  unfolding loaded_def Let_def
  by (auto intro!: nut_hook_cb nut_act nut_fold_clearTimeout nut_clearTimeout split: option.splits)

lemma nut_fire:
  "no_userhooks_timer st \<Longrightarrow> no_userhooks_timer (outcome_state (fire h st))"
proof -
  assume a: "no_userhooks_timer st"
  have b: "no_userhooks_timer (st\<lparr>timers := (timers st)[h := (timers st ! h)\<lparr>t_fired := True\<rparr>]\<rparr>)"
    if "h < length (timers st)"
    using a that
    by (auto simp: no_userhooks_timer_def list_all_iff dest!: set_update_subset_insert[THEN subsetD])
  show ?thesis unfolding fire_def tooLong_def
    using a b by (auto intro!: nut_hook_cb split: option.splits)
qed

lemma nut_step: "no_userhooks_timer st \<Longrightarrow> no_userhooks_timer (outcome_state (step ev st))"
  by (cases ev) (auto intro: nut_loaded nut_fire)

lemma nut_run_events:
  "no_userhooks_timer (outcome_state r) \<Longrightarrow> no_userhooks_timer (outcome_state (run_events evs r))"
proof (induction evs arbitrary: r)
  case Nil
  then show ?case by simp
next
  case (Cons ev evs)
  show ?case unfolding run_events.simps
    by (rule Cons.IH, rule nut_thenS) (use Cons.prems nut_step in auto)
qed

text \<open>
  Claim C9. For the bootstrap hook \<^verbatim>\<open>userhooks\<close> no deadline timer is started around its load:
  \<^verbatim>\<open>loadHook\<close> leaves the host's timers and \<^verbatim>\<open>hookTimeouts\<close> as they are. In a run from the
  initial state, whatever the hooks' loads and the timers do and however long they take, no
  timer ever belongs to \<^verbatim>\<open>userhooks\<close>, so \<^verbatim>\<open>tooLong\<close> never produces a timeout error for it.
\<close>

theorem userhooks_has_no_timer:
  "timers (outcome_state (loadHook ''userhooks'' st)) = timers st
   \<and> hookTimeouts (outcome_state (loadHook ''userhooks'' st)) = hookTimeouts st
   \<and> no_userhooks_timer (outcome_state (run_events evs (initializeHooks (init hs c))))
   \<and> (\<forall>h. h < length (timers (outcome_state (run_events evs (initializeHooks (init hs c)))))
        \<longrightarrow> t_owner (timers (outcome_state (run_events evs (initializeHooks (init hs c)))) ! h)
              \<noteq> ''userhooks'')"
proof -
  have 1: "timers (outcome_state (loadHook ''userhooks'' st)) = timers st
     \<and> hookTimeouts (outcome_state (loadHook ''userhooks'' st)) = hookTimeouts st"
    by (simp add: loadHook_def Let_def act_def split: option.splits entry.splits)
  have "no_userhooks_timer (init hs c)" by (simp add: no_userhooks_timer_def init_def)
  hence "no_userhooks_timer (outcome_state (initializeHooks (init hs c)))"
    unfolding initializeHooks_def by (rule nut_stage_moduleloader)
  hence 2: "no_userhooks_timer (outcome_state (run_events evs (initializeHooks (init hs c))))"
    by (rule nut_run_events)
  from 1 2 show ?thesis by (auto simp: no_userhooks_timer_def list_all_length)
qed


theorem userhooks_has_no_timer_witness:
  "timers (outcome_state (loadHook ''userhooks''
       (init [(''userhooks'', Inst (plain_hook ''userhooks''))] (VObj [])))) = []
   \<and> LoadStart ''userhooks'' \<in> set (trace (outcome_state (loadHook ''userhooks''
       (init [(''userhooks'', Inst (plain_hook ''userhooks''))] (VObj [])))))
   \<and> 0 < length (timers (outcome_state (run_events [LoadDone ''userhooks'' VUndef]
         (initializeHooks (init [(''userhooks'', Factory plain_factory),
                                 (''foo'', Factory plain_factory)] (VObj []))))))
   \<and> t_owner (timers (outcome_state (run_events [LoadDone ''userhooks'' VUndef]
         (initializeHooks (init [(''userhooks'', Factory plain_factory),
                                 (''foo'', Factory plain_factory)] (VObj []))))) ! 0)
       \<noteq> ''userhooks''"
proof -
  have 1: "LoadStart ''userhooks'' \<in> set (trace (outcome_state (loadHook ''userhooks''
       (init [(''userhooks'', Inst (plain_hook ''userhooks''))] (VObj [])))))"
    by (simp add: loadHook_def Let_def record_defs)
  have 2: "0 < length (timers (outcome_state (run_events [LoadDone ''userhooks'' VUndef]
         (initializeHooks (init [(''userhooks'', Factory plain_factory),
                                 (''foo'', Factory plain_factory)] (VObj []))))))"
    by (simp add: run_defs record_defs)
  from userhooks_has_no_timer
         [of "init [(''userhooks'', Inst (plain_hook ''userhooks''))] (VObj [])"
             "[LoadDone ''userhooks'' VUndef]"
             "[(''userhooks'', Factory plain_factory), (''foo'', Factory plain_factory)]"
             "VObj []"] 1 2
  show ?thesis by (simp add: init_def)
qed

section \<open>The order of the loads\<close>

subsection \<open>The monitor\<close>






lemma boot_index_le: "boot_index i \<le> 3"
  by (simp add: boot_index_def)



lemma accepts_level:
  "accepts p xs = Some q \<Longrightarrow> level p \<le> level q"
proof (induction xs arbitrary: p)
  case Nil
  then show ?case by simp
next
  case (Cons a xs)
  from Cons.prems obtain p1 where m: "mon p a = Some p1" and r: "accepts p1 xs = Some q"
    by (auto split: option.splits)
  have "level p \<le> level p1" using m boot_index_le[of "case a of LoadStart i \<Rightarrow> i | _ \<Rightarrow> []"]
    by (cases "(p, a)" rule: mon.cases) (auto split: if_splits)
  thus ?case using Cons.IH[OF r] by simp
qed



subsection \<open>How each operation continues the trace\<close>

lemma quiet_step_refl: "quiet_step st st"
  by (simp add: quiet_step_def)





lemma quiet_step_from:
  "trace a = trace a' \<Longrightarrow> stage a = stage a' \<Longrightarrow> quiet_step a' b \<Longrightarrow> quiet_step a b"
  by (simp add: quiet_step_def)




























subsection \<open>Every run is accepted\<close>


















subsection \<open>Each task runs in full before the next\<close>

lemma touches_refl: "touches Y st st"
  by (simp add: touches_def)


lemma touches_mono: "touches Y a b \<Longrightarrow> Y \<subseteq> Z \<Longrightarrow> touches Z a b"
  by (auto simp: touches_def)

















































section \<open>Disabled hooks\<close>





lemma map_of_update_absent:
  "map_of hs i = None \<Longrightarrow> map_of hs x = Some e \<Longrightarrow> map_of (AList.update x e' hs) i = None"
  by (auto simp: update_conv')













end
